theory Spec2Isabelle
  imports Complex_Main
begin

section \<open>LegoWorld V3 television application: scene navigation and photo gallery\<close>

text \<open>
  A shallow embedding of \<^verbatim>\<open>tizen/js/main.js\<close>. The closure variables of the
  \<^verbatim>\<open>DOMContentLoaded\<close> handler become the fields of a record; every function of the file
  becomes a function on that record. What a function does to the outside world (console,
  video element, network, timers, properties of DOM elements) is appended to a trace.

  An \<^verbatim>\<open>async\<close> function is split where it awaits the network: the part before the
  \<^verbatim>\<open>await\<close> starts the request, the part after it is a second function that takes the
  response. Both parts of \<^verbatim>\<open>loadPhotos\<close> and of the polling callback read and write the
  variables only after their last \<^verbatim>\<open>await\<close>, so the second part runs without interruption.
\<close>

subsection \<open>Numbers\<close>

text \<open>
  A JavaScript number is an IEEE 754 double: a finite value (a rational here), one of the two
  infinities, or NaN. The sign of zero is not kept; nothing in the program can tell.
\<close>

datatype jsnum = Fin rat | PosInf | NegInf | NaN

text \<open>
  The power of two at or below a positive rational, kept inside the exponent range of the
  doubles: not above \<open>2\<^sup>1\<^sup>0\<^sup>2\<^sup>4\<close>, which only a value too large for a double reaches, and
  not below \<open>2\<^sup>-\<^sup>1\<^sup>0\<^sup>2\<^sup>2\<close>, the binade the subnormal numbers share.
\<close>

fun pow2_up :: "nat \<Rightarrow> rat \<Rightarrow> rat \<Rightarrow> rat" where
  "pow2_up 0 x p = p"
| "pow2_up (Suc f) x p = (if x < 2 * p then p else pow2_up f x (2 * p))"

fun pow2_down :: "nat \<Rightarrow> rat \<Rightarrow> rat \<Rightarrow> rat" where
  "pow2_down 0 x p = p"
| "pow2_down (Suc f) x p = (if p \<le> x then p else pow2_down f x (p / 2))"

definition pow2_below :: "rat \<Rightarrow> rat" where
  "pow2_below x = (if 1 \<le> x then pow2_up 1024 x 1 else pow2_down 1021 x (1 / 2))"

text \<open>The nearest integer, the even one of the two when they are equally near.\<close>

definition round_half_even :: "rat \<Rightarrow> int" where
  "round_half_even m =
    (let f = \<lfloor>m\<rfloor>; d = m - of_int f
     in if d < 1 / 2 then f else if 1 / 2 < d then f + 1 else if even f then f else f + 1)"

text \<open>
  The double nearest to an exact result (round to nearest, ties to even): doubles of one
  binade are the multiples of its power of two divided by \<open>2\<^sup>5\<^sup>2\<close>; a result that rounds to
  \<open>2\<^sup>1\<^sup>0\<^sup>2\<^sup>4\<close> or beyond is an infinity.
\<close>

definition to_double :: "rat \<Rightarrow> jsnum" where
  "to_double x =
    (if x = 0 then Fin 0
     else
       let q = pow2_below \<bar>x\<bar> / 2 ^ 52;
           r = of_int (round_half_even (x / q)) * q
       in if 2 ^ 1024 \<le> \<bar>r\<bar> then (if 0 < x then PosInf else NegInf) else Fin r)"

text \<open>The operator \<^verbatim>\<open>-\<close> on two numbers.\<close>

fun js_sub :: "jsnum \<Rightarrow> jsnum \<Rightarrow> jsnum" where
  "js_sub (Fin a) (Fin b) = to_double (a - b)"
| "js_sub NaN y = NaN"
| "js_sub x NaN = NaN"
| "js_sub PosInf PosInf = NaN"
| "js_sub NegInf NegInf = NaN"
| "js_sub PosInf y = PosInf"
| "js_sub NegInf y = NegInf"
| "js_sub (Fin a) PosInf = NegInf"
| "js_sub (Fin a) NegInf = PosInf"

text \<open>
  The operator \<^verbatim>\<open>/\<close> with one of the constants of the program on the right (1000, 60, 3600
  and 86400, all positive and finite), and \<^verbatim>\<open><\<close> with such a constant on the right.
\<close>

fun js_div :: "jsnum \<Rightarrow> rat \<Rightarrow> jsnum" where
  "js_div (Fin a) c = to_double (a / c)"
| "js_div PosInf c = PosInf"
| "js_div NegInf c = NegInf"
| "js_div NaN c = NaN"

fun js_lt :: "jsnum \<Rightarrow> rat \<Rightarrow> bool" where
  "js_lt (Fin a) c = (a < c)"
| "js_lt PosInf c = False"
| "js_lt NegInf c = True"
| "js_lt NaN c = False"

text \<open>\<^verbatim>\<open>Math.floor\<close>: the floor of a double is a double.\<close>

fun js_floor :: "jsnum \<Rightarrow> jsnum" where
  "js_floor (Fin a) = Fin (of_int \<lfloor>a\<rfloor>)"
| "js_floor PosInf = PosInf"
| "js_floor NegInf = NegInf"
| "js_floor NaN = NaN"

text \<open>
  A template literal that holds one number followed by text, such as
  \<^verbatim>\<open>`${Math.floor(timeAgo / 60)}m ago`\<close>, is kept as the number and the text; the digits of
  the number are the platform's. A string without a number is kept as it is.
\<close>

datatype label = Text string | NumberThen jsnum string

subsection \<open>Data\<close>

text \<open>The four string values that \<^verbatim>\<open>currentView\<close> is ever assigned.\<close>

datatype view = Dashboard | Video | Photos | Fullscreen

text \<open>The DOM elements whose class list or properties the code writes.\<close>

datatype elem = bgImage | dashboard | sceneTitle | videoPlayerView | videoSource
  | myPhotosView | newPhotoIndicator | fullscreenPhoto | fullscreenImg | fullscreenCaption

text \<open>
  One entry of the array served by \<^verbatim>\<open>/api/photos\<close>. The time stamp is a number of
  seconds.
\<close>

record photo =
  filename :: string
  caption :: "string option"
  created_at :: jsnum

record scene =
  img :: "string option"
  video :: "string option"
  title :: string

text \<open>One card of the rendered photo grid, and the content of the grid element.\<close>

record card =
  isNew :: bool
  focused :: bool
  imgSrc :: string
  captionText :: string
  timeStr :: label

datatype grid = Placeholder | Cards "card list"

datatype effect =
    ConsoleLog string
  | ConsoleLogNumber string nat
  | ConsoleError string
  | SetSrc elem string
  | SetText elem string
  | VideoLoad
  | VideoPlay
  | VideoPause
  | Fetch string
  | SetTimeout nat
  | SetInterval nat
  | UncaughtTypeError

text \<open>
  What a \<^verbatim>\<open>fetch\<close> followed by \<^verbatim>\<open>response.json()\<close> can deliver: a rejected fetch, or a
  response with its \<^verbatim>\<open>ok\<close> flag and its body, \<open>None\<close> when the body is not JSON. A JSON body is
  taken to have the shape the endpoint promises.
\<close>

datatype 'a response = NetworkError | Http bool "'a option"

record state =
  currentScene :: "string option"
  currentView :: view
  photos :: "photo list"
  lastPhotoCount :: int
  focusedPhotoIndex :: int
  sceneIndex :: int
  classes :: "(elem \<times> string) set"
  photoGrid :: grid
  nowMs :: int
  photoFetches :: nat
  stateFetches :: nat
  hideTimers :: nat
  polling :: bool
  onended :: bool
  trace :: "effect list"

text \<open>
  A function that can throw returns where it stopped: the variables it wrote before the
  exception keep their new values.
\<close>

datatype outcome = Returned state | Threw state

subsection \<open>Constants of the program\<close>

definition BACKEND_URL :: string where
  "BACKEND_URL = ''https://marlena-glossological-hyperconfidently.ngrok-free.dev''"

definition sceneAssets_list :: "(string \<times> scene) list" where
  "sceneAssets_list =
    [(''SmartBrick1'', \<lparr>img = Some ''assets/smartbrick1.jpg'', video = None, title = ''SmartBrick''\<rparr>),
     (''SmartBrick2'', \<lparr>img = Some ''assets/smartbrick2.jpg'', video = None, title = ''SmartBrick 2''\<rparr>),
     (''City'', \<lparr>img = Some ''assets/city1.jpg'', video = Some ''assets/city.mp4'', title = ''City''\<rparr>),
     (''Firetruck'', \<lparr>img = Some ''assets/firetruck.jpg'', video = Some ''assets/firetruck.mp4'',
        title = ''Fire Truck''\<rparr>),
     (''Universe'', \<lparr>img = Some ''assets/Lego universe.jpg'',
        video = Some ''assets/Lego universe starwars.mp4'', title = ''Universe''\<rparr>),
     (''Space'', \<lparr>img = Some ''assets/space.png'', video = Some ''assets/space.mp4'', title = ''Space''\<rparr>),
     (''Game'', \<lparr>img = Some ''assets/game.png'', video = None, title = ''Game''\<rparr>),
     (''MyPhotos'', \<lparr>img = None, video = None, title = ''My Lego''\<rparr>)]"

text \<open>
  \<^verbatim>\<open>sceneAssets[name]\<close>: \<open>None\<close> is \<^verbatim>\<open>undefined\<close>, which is also what the key
  \<^verbatim>\<open>undefined\<close> gives. (Keys inherited from \<^verbatim>\<open>Object.prototype\<close> are not modelled; no
  scene name is one.)
\<close>

definition sceneAssets :: "string option \<Rightarrow> scene option" where
  "sceneAssets name = (case name of None \<Rightarrow> None | Some n \<Rightarrow> map_of sceneAssets_list n)"

definition sceneOrder :: "string list" where
  "sceneOrder = [''SmartBrick1'', ''SmartBrick2'', ''City'', ''Firetruck'', ''Universe'', ''Space'',
     ''Game'', ''MyPhotos'']"

text \<open>\<^verbatim>\<open>sceneOrder[i]\<close>, \<^verbatim>\<open>undefined\<close> outside the array.\<close>

definition sceneOrder_at :: "int \<Rightarrow> string option" where
  "sceneOrder_at i =
    (if 0 \<le> i \<and> i < int (length sceneOrder) then Some (sceneOrder ! nat i) else None)"

text \<open>The remainder operator of JavaScript on integers: the sign is the dividend's.\<close>

definition js_rem :: "int \<Rightarrow> int \<Rightarrow> int" where
  "js_rem a b = sgn a * (\<bar>a\<bar> mod \<bar>b\<bar>)"

text \<open>A string value, or its absence, used as a condition.\<close>

definition truthy :: "string option \<Rightarrow> bool" where
  "truthy x = (case x of None \<Rightarrow> False | Some v \<Rightarrow> v \<noteq> [])"

definition string_or_undefined :: "string option \<Rightarrow> string" where
  "string_or_undefined x = (case x of None \<Rightarrow> ''undefined'' | Some v \<Rightarrow> v)"

subsection \<open>Small steps shared by the functions\<close>

definition emit :: "effect list \<Rightarrow> state \<Rightarrow> state" where
  "emit es s = s\<lparr>trace := trace s @ es\<rparr>"

definition classAdd :: "elem \<Rightarrow> string \<Rightarrow> state \<Rightarrow> state" where
  "classAdd e c s = s\<lparr>classes := insert (e, c) (classes s)\<rparr>"

definition classRemove :: "elem \<Rightarrow> string \<Rightarrow> state \<Rightarrow> state" where
  "classRemove e c s = s\<lparr>classes := classes s - {(e, c)}\<rparr>"

text \<open>The new-photo indicator is showing when its element does not carry the class \<^verbatim>\<open>hidden\<close>.\<close>

definition pendingNewIndicator :: "state \<Rightarrow> bool" where
  "pendingNewIndicator s = ((newPhotoIndicator, ''hidden'') \<notin> classes s)"

subsection \<open>Video playback\<close>

definition playVideo :: "state \<Rightarrow> outcome" where
  "playVideo s =
    (case sceneAssets (currentScene s) of
       None \<Rightarrow> Threw s
     | Some sc \<Rightarrow>
        if \<not> truthy (video sc) then Returned s
        else
          let s1 = emit [ConsoleLog (''Playing video: '' @ the (video sc)),
                         SetSrc videoSource (the (video sc)), VideoLoad] s;
              s2 = classRemove dashboard ''active'' (classAdd dashboard ''hidden'' s1);
              s3 = classRemove videoPlayerView ''hidden'' (classAdd videoPlayerView ''active'' s2);
              s4 = s3\<lparr>currentView := Video\<rparr>
          in Returned ((emit [VideoPlay] s4)\<lparr>onended := True\<rparr>))"

definition stopVideo :: "state \<Rightarrow> state" where
  "stopVideo s =
    (let s1 = emit [ConsoleLog ''Stopping video'', VideoPause, SetSrc videoSource []] s;
         s2 = classRemove videoPlayerView ''active'' (classAdd videoPlayerView ''hidden'' s1);
         s3 = classRemove dashboard ''hidden'' (classAdd dashboard ''active'' s2)
     in s3\<lparr>currentView := Dashboard\<rparr>)"

subsection \<open>Photo gallery\<close>

text \<open>The first part of \<^verbatim>\<open>loadPhotos\<close>: the request leaves, nothing else happens yet.\<close>

definition loadPhotos :: "state \<Rightarrow> state" where
  "loadPhotos s =
    (emit [Fetch (BACKEND_URL @ ''/api/photos'')] s)\<lparr>photoFetches := photoFetches s + 1\<rparr>"

definition showNewPhotoIndicator :: "state \<Rightarrow> state" where
  "showNewPhotoIndicator s =
    (emit [SetTimeout 5000] (classRemove newPhotoIndicator ''hidden'' s))
      \<lparr>hideTimers := hideTimers s + 1\<rparr>"

text \<open>The callback of that timer.\<close>

definition hideNewPhotoIndicator :: "state \<Rightarrow> state" where
  "hideNewPhotoIndicator s = (classAdd newPhotoIndicator ''hidden'' s)\<lparr>hideTimers := hideTimers s - 1\<rparr>"

text \<open>
  \<^verbatim>\<open>Date.now() / 1000 - photo.created_at\<close>, in double arithmetic. \<^verbatim>\<open>Date.now()\<close> is the
  clock of the state, a whole number of milliseconds.
\<close>

definition timeAgo :: "int \<Rightarrow> photo \<Rightarrow> jsnum" where
  "timeAgo now p = js_sub (js_div (to_double (of_int now)) 1000) (created_at p)"

text \<open>The chain of comparisons under \<^verbatim>\<open>// Format time\<close>.\<close>

definition formatTime :: "jsnum \<Rightarrow> label" where
  "formatTime age =
    (if js_lt age 60 then Text ''Just now''
     else if js_lt age 3600 then NumberThen (js_floor (js_div age 60)) ''m ago''
     else if js_lt age 86400 then NumberThen (js_floor (js_div age 3600)) ''h ago''
     else NumberThen (js_floor (js_div age 86400)) ''d ago'')"

definition renderCard :: "state \<Rightarrow> nat \<times> photo \<Rightarrow> card" where
  "renderCard s ip =
    (case ip of (index, p) \<Rightarrow>
      \<lparr>isNew = js_lt (timeAgo (nowMs s) p) 3600,
       focused = (int index = focusedPhotoIndex s),
       imgSrc = BACKEND_URL @ ''/api/photos/'' @ filename p,
       captionText = (if truthy (caption p) then the (caption p) else ''My Lego Set''),
       timeStr = formatTime (timeAgo (nowMs s) p)\<rparr>)"

definition renderPhotoGrid :: "state \<Rightarrow> state" where
  "renderPhotoGrid s =
    (if length (photos s) = 0 then s\<lparr>photoGrid := Placeholder\<rparr>
     else s\<lparr>photoGrid := Cards (map (renderCard s) (enumerate 0 (photos s)))\<rparr>)"

text \<open>The second part of \<^verbatim>\<open>loadPhotos\<close>, run when the request has settled.\<close>

definition loadPhotos_resume :: "photo list response \<Rightarrow> state \<Rightarrow> state" where
  "loadPhotos_resume r s =
    (case r of
       NetworkError \<Rightarrow> emit [ConsoleError ''Error loading photos:''] s
     | Http ok body \<Rightarrow>
        if ok then
          (case body of
             None \<Rightarrow> emit [ConsoleError ''Error loading photos:''] s
           | Some data \<Rightarrow>
              let s1 = (if int (length data) > lastPhotoCount s
                        then showNewPhotoIndicator (emit [ConsoleLog ''New photos detected!''] s)
                        else s);
                  s2 = s1\<lparr>lastPhotoCount := int (length data)\<rparr>;
                  s3 = s2\<lparr>photos := data\<rparr>
              in renderPhotoGrid s3)
        else s)"

definition showPhotoGallery :: "state \<Rightarrow> state" where
  "showPhotoGallery s =
    (let s1 = emit [ConsoleLog ''Showing photo gallery''] s;
         s2 = classRemove dashboard ''active'' (classAdd dashboard ''hidden'' s1);
         s3 = classRemove myPhotosView ''hidden'' (classAdd myPhotosView ''active'' s2);
         s4 = s3\<lparr>currentView := Photos\<rparr>;
         s5 = s4\<lparr>focusedPhotoIndex := 0\<rparr>
     in loadPhotos s5)"

definition hidePhotoGallery :: "state \<Rightarrow> state" where
  "hidePhotoGallery s =
    (if currentView s \<noteq> Photos then s
     else
       let s1 = emit [ConsoleLog ''Hiding photo gallery''] s;
           s2 = classRemove myPhotosView ''active'' (classAdd myPhotosView ''hidden'' s1);
           s3 = classRemove dashboard ''hidden'' (classAdd dashboard ''active'' s2)
       in s3\<lparr>currentView := Dashboard\<rparr>)"

text \<open>The argument is \<open>None\<close> for a missing photo (\<^verbatim>\<open>undefined\<close>).\<close>

definition showFullscreenPhoto :: "photo option \<Rightarrow> state \<Rightarrow> state" where
  "showFullscreenPhoto po s =
    (case po of
       None \<Rightarrow> s
     | Some p \<Rightarrow>
        let s1 = emit [ConsoleLog ''Showing fullscreen photo'',
                       SetSrc fullscreenImg (BACKEND_URL @ ''/api/photos/'' @ filename p),
                       SetText fullscreenCaption
                         (if truthy (caption p) then the (caption p) else ''My Lego Set'')] s;
            s2 = classAdd myPhotosView ''hidden'' s1;
            s3 = classRemove fullscreenPhoto ''hidden'' (classAdd fullscreenPhoto ''active'' s2)
        in s3\<lparr>currentView := Fullscreen\<rparr>)"

definition hideFullscreenPhoto :: "state \<Rightarrow> state" where
  "hideFullscreenPhoto s =
    (let s1 = emit [ConsoleLog ''Hiding fullscreen photo''] s;
         s2 = classRemove fullscreenPhoto ''active'' (classAdd fullscreenPhoto ''hidden'' s1);
         s3 = classRemove myPhotosView ''hidden'' (classAdd myPhotosView ''active'' s2)
     in s3\<lparr>currentView := Photos\<rparr>)"

subsection \<open>Scene navigation\<close>

definition updateScene :: "string option \<Rightarrow> state \<Rightarrow> outcome" where
  "updateScene sceneName s =
    (let s1 = (emit [ConsoleLog (''Switching to scene: '' @ string_or_undefined sceneName)] s)
                \<lparr>currentScene := sceneName\<rparr>
     in if sceneName = Some ''MyPhotos'' then Returned (showPhotoGallery s1)
        else
          (case sceneAssets sceneName of
             None \<Rightarrow> Threw s1
           | Some sc \<Rightarrow>
              let s2 = (if truthy (img sc) then emit [SetSrc bgImage (the (img sc))] s1 else s1)
              in Returned (emit [SetText sceneTitle (title sc)] s2)))"

definition navigateUp :: "state \<Rightarrow> outcome" where
  "navigateUp s =
    (if currentView s = Dashboard \<or> currentView s = Photos then
       let s1 = (if currentView s = Photos then hidePhotoGallery s else s);
           s2 = s1\<lparr>sceneIndex :=
                  js_rem (sceneIndex s1 - 1 + int (length sceneOrder)) (int (length sceneOrder))\<rparr>
       in updateScene (sceneOrder_at (sceneIndex s2)) s2
     else Returned s)"

definition navigateDown :: "state \<Rightarrow> outcome" where
  "navigateDown s =
    (if currentView s = Dashboard \<or> currentView s = Photos then
       let s1 = (if currentView s = Photos then hidePhotoGallery s else s);
           s2 = s1\<lparr>sceneIndex := js_rem (sceneIndex s1 + 1) (int (length sceneOrder))\<rparr>
       in updateScene (sceneOrder_at (sceneIndex s2)) s2
     else Returned s)"

text \<open>
  The message logged before a manual refresh. Its first four characters are outside ASCII
  (U+00F0, U+0178, U+201D, U+201E in the file); they are given as their UTF-8 bytes.
\<close>

definition refreshing_message :: string where
  "refreshing_message =
    [CHR 0xC3, CHR 0xB0, CHR 0xC5, CHR 0xB8, CHR 0xE2, CHR 0x80, CHR 0x9D, CHR 0xE2, CHR 0x80,
     CHR 0x9E] @ '' Refreshing photos...''"

definition handleEnter :: "state \<Rightarrow> outcome" where
  "handleEnter s =
    (if currentView s = Dashboard then
       (case sceneAssets (currentScene s) of
          None \<Rightarrow> Threw s
        | Some sc \<Rightarrow>
           if truthy (video sc) then playVideo s
           else if currentScene s = Some ''MyPhotos'' then Returned (showPhotoGallery s)
           else Returned s)
     else if currentView s = Photos then
       Returned (loadPhotos (emit [ConsoleLog refreshing_message] s))
     else Returned s)"

definition handleBack :: "state \<Rightarrow> state" where
  "handleBack s =
    (if currentView s = Video then stopVideo s
     else if currentView s = Photos then hidePhotoGallery s
     else if currentView s = Fullscreen then hideFullscreenPhoto s
     else s)"

subsection \<open>Polling\<close>

definition startPolling :: "state \<Rightarrow> state" where
  "startPolling s = (emit [SetInterval 2000] s)\<lparr>polling := True\<rparr>"

text \<open>
  The callback given to \<^verbatim>\<open>setInterval\<close>, up to its first \<^verbatim>\<open>await\<close>: every call sends
  a request. The callback reads no variable before it does so.
\<close>

definition poll_tick :: "state \<Rightarrow> state" where
  "poll_tick s = (emit [Fetch (BACKEND_URL @ ''/api/state'')] s)\<lparr>stateFetches := stateFetches s + 1\<rparr>"

text \<open>The rest of the callback; the body of the response is its \<^verbatim>\<open>total_count\<close>.\<close>

definition poll_resume :: "int response \<Rightarrow> state \<Rightarrow> state" where
  "poll_resume r s =
    (case r of
       NetworkError \<Rightarrow> emit [ConsoleError ''Polling error:''] s
     | Http ok body \<Rightarrow>
        if ok then
          (case body of
             None \<Rightarrow> emit [ConsoleError ''Polling error:''] s
           | Some total_count \<Rightarrow>
              if total_count > lastPhotoCount s \<and> currentView s = Photos then loadPhotos s
              else if total_count > lastPhotoCount s then s\<lparr>lastPhotoCount := total_count\<rparr>
              else s)
        else s)"

subsection \<open>Remote control\<close>

text \<open>An exception that leaves an event handler is reported and the page goes on.\<close>

definition finish :: "outcome \<Rightarrow> state" where
  "finish out = (case out of Returned s \<Rightarrow> s | Threw s \<Rightarrow> emit [UncaughtTypeError] s)"

definition moveFocusLeft :: "state \<Rightarrow> state" where
  "moveFocusLeft s =
    (if currentView s = Photos \<and> focusedPhotoIndex s > 0
     then renderPhotoGrid (s\<lparr>focusedPhotoIndex := focusedPhotoIndex s - 1\<rparr>)
     else s)"

definition moveFocusRight :: "state \<Rightarrow> state" where
  "moveFocusRight s =
    (if currentView s = Photos \<and> focusedPhotoIndex s < int (length (photos s)) - 1
     then renderPhotoGrid (s\<lparr>focusedPhotoIndex := focusedPhotoIndex s + 1\<rparr>)
     else s)"

definition keydown :: "nat \<Rightarrow> state \<Rightarrow> state" where
  "keydown keyCode s =
    (let s0 = emit [ConsoleLogNumber ''Key pressed:'' keyCode] s
     in if keyCode = 38 then finish (navigateUp s0)
        else if keyCode = 40 then finish (navigateDown s0)
        else if keyCode = 13 then finish (handleEnter s0)
        else if keyCode = 10009 \<or> keyCode = 27 then handleBack s0
        else if keyCode = 37 then moveFocusLeft s0
        else if keyCode = 39 then moveFocusRight s0
        else s0)"

subsection \<open>The page as an event loop\<close>

text \<open>
  Everything after start-up happens in callbacks. An event is one callback run to its end:
  a key, a firing of the polling interval, the settling of a request, the timer that hides
  the indicator, the end of the video, and the passing of time. The counters
  \<open>stateFetches\<close>, \<open>photoFetches\<close> and \<open>hideTimers\<close> hold how many requests and timers are
  outstanding.
\<close>

datatype event =
    Keydown nat
  | IntervalTick
  | StateResponse "int response"
  | PhotosResponse "photo list response"
  | HideTimeout
  | VideoEnded
  | ClockAdvance nat

definition step :: "event \<Rightarrow> state \<Rightarrow> state" where
  "step e s =
    (case e of
       Keydown k \<Rightarrow> keydown k s
     | IntervalTick \<Rightarrow> poll_tick s
     | StateResponse r \<Rightarrow> poll_resume r (s\<lparr>stateFetches := stateFetches s - 1\<rparr>)
     | PhotosResponse r \<Rightarrow> loadPhotos_resume r (s\<lparr>photoFetches := photoFetches s - 1\<rparr>)
     | HideTimeout \<Rightarrow> hideNewPhotoIndicator s
     | VideoEnded \<Rightarrow> (if onended s then stopVideo s else s)
     | ClockAdvance d \<Rightarrow> s\<lparr>nowMs := nowMs s + int d\<rparr>)"

fun run :: "event list \<Rightarrow> state \<Rightarrow> state" where
  "run [] s = s"
| "run (e # es) s = run es (step e s)"

text \<open>
  The variables as declared, over the page as loaded: the classes of the elements, the
  content of the grid and the clock are those of the environment.
\<close>

definition initial :: "(elem \<times> string) set \<Rightarrow> grid \<Rightarrow> int \<Rightarrow> state" where
  "initial cls g now =
    \<lparr>currentScene = Some ''SmartBrick1'', currentView = Dashboard, photos = [],
     lastPhotoCount = 0, focusedPhotoIndex = 0, sceneIndex = 0, classes = cls, photoGrid = g,
     nowMs = now, photoFetches = 0, stateFetches = 0, hideTimers = 0, polling = False,
     onended = False, trace = []\<rparr>"

text \<open>The two calls under \<^verbatim>\<open>// Initialize\<close>.\<close>

definition startup :: "(elem \<times> string) set \<Rightarrow> grid \<Rightarrow> int \<Rightarrow> state" where
  "startup cls g now =
    (case updateScene (sceneOrder_at 0) (initial cls g now) of
       Returned s \<Rightarrow> startPolling s
     | Threw s \<Rightarrow> emit [UncaughtTypeError] s)"

subsection \<open>The navigation commands of the specification\<close>

text \<open>
  The specification calls the handler of the Down key \<open>moveNext\<close> and that of the Up key
  \<open>movePrevious\<close>; a sequence of them is a list of moves.
\<close>

definition moveNext :: "state \<Rightarrow> state" where
  "moveNext s = finish (navigateDown s)"

definition movePrevious :: "state \<Rightarrow> state" where
  "movePrevious s = finish (navigateUp s)"

datatype move = Next | Previous

fun moves :: "move list \<Rightarrow> state \<Rightarrow> state" where
  "moves [] s = s"
| "moves (Next # ms) s = moves ms (moveNext s)"
| "moves (Previous # ms) s = moves ms (movePrevious s)"

text \<open>The states in which the two commands act: a navigable view and an index inside the order.\<close>

definition navigable :: "state \<Rightarrow> bool" where
  "navigable s =
    ((currentView s = Dashboard \<or> currentView s = Photos) \<and> 0 \<le> sceneIndex s \<and> sceneIndex s < 8)"

subsection \<open>Requests that fail\<close>

text \<open>
  A request has failed when the fetch was rejected, when the status is not a 2xx one, or
  when the body of a 2xx response is not JSON. The second predicate picks out the middle case.
\<close>

definition fetch_failed :: "'a response \<Rightarrow> bool" where
  "fetch_failed r = (case r of NetworkError \<Rightarrow> True | Http ok body \<Rightarrow> \<not> ok \<or> body = None)"

definition non_2xx :: "'a response \<Rightarrow> bool" where
  "non_2xx r = (case r of NetworkError \<Rightarrow> False | Http ok body \<Rightarrow> \<not> ok)"

subsection \<open>States used as examples\<close>

text \<open>
  A photo, and the state after this session: Up from the first scene (which lands on the
  gallery and opens it), the photo list arrives with five photos, the indicator times out,
  Back. Five photos are known and shown, the view is Dashboard, the scene is the gallery.
\<close>

definition photo0 :: photo where
  "photo0 = \<lparr>filename = ''brick.jpg'', caption = None, created_at = Fin 0\<rparr>"

definition five_known :: state where
  "five_known =
    run [Keydown 38, PhotosResponse (Http True (Some (replicate 5 photo0))), HideTimeout, Keydown 27]
      (startup {(newPhotoIndicator, ''hidden'')} Placeholder 0)"

subsection \<open>What the backend reports, and the history of the count\<close>

text \<open>
  A response that succeeds reports the number of photos the backend holds: the poll by its
  \<^verbatim>\<open>total_count\<close>, the photo list by its length. \<open>observed_counts\<close> collects these numbers in
  the order the responses are delivered; \<open>counts_after\<close> is the value of \<open>lastPhotoCount\<close>
  after each event of a sequence.
\<close>

fun observed_count :: "event \<Rightarrow> int option" where
  "observed_count (StateResponse (Http True (Some total_count))) = Some total_count"
| "observed_count (PhotosResponse (Http True (Some data))) = Some (int (length data))"
| "observed_count _ = None"

definition observed_counts :: "event list \<Rightarrow> int list" where
  "observed_counts es = List.map_filter observed_count es"

fun counts_after :: "event list \<Rightarrow> state \<Rightarrow> int list" where
  "counts_after [] s = []"
| "counts_after (e # es) s = lastPhotoCount (step e s) # counts_after es (step e s)"

text \<open>
  When the page can receive an event: the interval fires once polling has started, an answer
  arrives only to a request that is outstanding, the timer of the indicator only when one
  is running, the video ends only while it plays. A sequence of events is feasible from a
  state when each event can be received in the state the earlier ones lead to.
\<close>

fun enabled :: "event \<Rightarrow> state \<Rightarrow> bool" where
  "enabled (Keydown k) s = True"
| "enabled IntervalTick s = polling s"
| "enabled (StateResponse r) s = (0 < stateFetches s)"
| "enabled (PhotosResponse r) s = (0 < photoFetches s)"
| "enabled HideTimeout s = (0 < hideTimers s)"
| "enabled VideoEnded s = (onended s \<and> currentView s = Video)"
| "enabled (ClockAdvance d) s = True"

fun feasible :: "event list \<Rightarrow> state \<Rightarrow> bool" where
  "feasible [] s = True"
| "feasible (e # es) s = (enabled e s \<and> feasible es (step e s))"

text \<open>
  A session in which the backend grows from two photos to three and every answer arrives
  before the next request is sent: a poll, Up (which opens the gallery and asks for the
  list), the list, another poll.
\<close>

definition growing_backend :: "event list" where
  "growing_backend =
    [IntervalTick, StateResponse (Http True (Some 2)), Keydown 38,
     PhotosResponse (Http True (Some [photo0, photo0, photo0])), IntervalTick,
     StateResponse (Http True (Some 3))]"

text \<open>
  A session in which an answer is overtaken. Up opens the gallery and asks for the list while
  the backend holds three photos; the interval fires and the poll is sent when it holds
  five; Back; the answer to the poll arrives; then the answer to the request for the list.
\<close>

definition stale_refresh :: "event list" where
  "stale_refresh =
    [Keydown 38, IntervalTick, Keydown 27, StateResponse (Http True (Some 5)),
     PhotosResponse (Http True (Some [photo0, photo0, photo0]))]"

subsection \<open>The rendered grid\<close>

text \<open>The cards that the grid element holds (none while it shows the placeholder).\<close>

definition cards :: "state \<Rightarrow> card list" where
  "cards s = (case photoGrid s of Placeholder \<Rightarrow> [] | Cards cs \<Rightarrow> cs)"

text \<open>
  Four photos, and the state in which they have just arrived while the clock reads
  1762128000002 milliseconds. The time stamps of the first two are the doubles nearest to
  1762127940.002 and 1762124400.002: the exact differences to the clock are a little under
  60 and 3600 seconds, the computed ones are 60 and 3600. The other two are 30.002 and
  200000.002 seconds old.
\<close>

definition aged_photos :: "photo list" where
  "aged_photos =
    [\<lparr>filename = ''a.jpg'', caption = None, created_at = Fin (7390900267262149 / 4194304)\<rparr>,
     \<lparr>filename = ''b.jpg'', caption = Some ''Castle'',
        created_at = Fin (7390885419425989 / 4194304)\<rparr>,
     \<lparr>filename = ''c.jpg'', caption = Some [], created_at = Fin 1762127970\<rparr>,
     \<lparr>filename = ''d.jpg'', caption = None, created_at = Fin 1761928000\<rparr>]"

definition aged_gallery :: state where
  "aged_gallery =
    loadPhotos_resume (Http True (Some aged_photos)) (startup {} Placeholder 1762128000002)"

text \<open>
  A session in which the photo list gets shorter: Up opens the gallery, three photos arrive,
  Right twice, Enter asks again, one photo arrives.
\<close>

definition shrinking_gallery :: "event list" where
  "shrinking_gallery =
    [Keydown 38, PhotosResponse (Http True (Some [photo0, photo0, photo0])), Keydown 39, Keydown 39,
     Keydown 13, PhotosResponse (Http True (Some [photo0]))]"

section \<open>Properties\<close>

subsection \<open>What each function does to each variable\<close>

lemmas prim_defs = emit_def classAdd_def classRemove_def

lemmas gallery_defs = loadPhotos_def showPhotoGallery_def hidePhotoGallery_def
  showFullscreenPhoto_def hideFullscreenPhoto_def showNewPhotoIndicator_def
  hideNewPhotoIndicator_def renderPhotoGrid_def

lemma length_sceneOrder [simp]: "length sceneOrder = 8"
  by (simp add: sceneOrder_def)

lemma finish_simps [simp]:
  "finish (Returned s) = s"
  "finish (Threw s) = emit [UncaughtTypeError] s"
  by (simp_all add: finish_def)

lemma emit_fields [simp]:
  "currentView (emit es s) = currentView s"
  "currentScene (emit es s) = currentScene s"
  "sceneIndex (emit es s) = sceneIndex s"
  "focusedPhotoIndex (emit es s) = focusedPhotoIndex s"
  "photos (emit es s) = photos s"
  "lastPhotoCount (emit es s) = lastPhotoCount s"
  "classes (emit es s) = classes s"
  "photoFetches (emit es s) = photoFetches s"
  "stateFetches (emit es s) = stateFetches s"
  "trace (emit es s) = trace s @ es"
  by (simp_all add: emit_def)

lemma updateScene_sceneIndex [simp]: "sceneIndex (finish (updateScene n s)) = sceneIndex s"
  by (simp add: updateScene_def Let_def prim_defs gallery_defs split: option.splits)

lemma updateScene_currentView [simp]:
  "currentView (finish (updateScene n s)) = (if n = Some ''MyPhotos'' then Photos else currentView s)"
  by (simp add: updateScene_def Let_def prim_defs gallery_defs split: option.splits)

lemma updateScene_currentScene [simp]: "currentScene (finish (updateScene n s)) = n"
  by (simp add: updateScene_def Let_def prim_defs gallery_defs split: option.splits)

lemma hidePhotoGallery_sceneIndex [simp]: "sceneIndex (hidePhotoGallery s) = sceneIndex s"
  by (simp add: Let_def prim_defs gallery_defs)

lemma hidePhotoGallery_currentView [simp]:
  "currentView (hidePhotoGallery s) = (if currentView s = Photos then Dashboard else currentView s)"
  by (simp add: Let_def prim_defs gallery_defs)

lemma stopVideo_currentView [simp]: "currentView (stopVideo s) = Dashboard"
  by (simp add: stopVideo_def Let_def prim_defs)

lemma loadPhotos_currentView [simp]: "currentView (loadPhotos s) = currentView s"
  by (simp add: loadPhotos_def)

lemma renderPhotoGrid_currentView [simp]: "currentView (renderPhotoGrid s) = currentView s"
  by (simp add: renderPhotoGrid_def)

lemma loadPhotos_resume_currentView [simp]: "currentView (loadPhotos_resume r s) = currentView s"
  by (simp add: loadPhotos_resume_def showNewPhotoIndicator_def prim_defs Let_def
      split: response.splits option.splits)

lemma poll_resume_currentView [simp]: "currentView (poll_resume r s) = currentView s"
  by (simp add: poll_resume_def split: response.splits option.splits)

lemma poll_tick_currentView [simp]: "currentView (poll_tick s) = currentView s"
  by (simp add: poll_tick_def)

lemma showPhotoGallery_currentView [simp]: "currentView (showPhotoGallery s) = Photos"
  by (simp add: showPhotoGallery_def Let_def prim_defs)

lemma showFullscreenPhoto_currentView [simp]:
  "currentView (showFullscreenPhoto (Some p) s) = Fullscreen"
  by (simp add: showFullscreenPhoto_def Let_def prim_defs)

lemma hideFullscreenPhoto_currentView [simp]: "currentView (hideFullscreenPhoto s) = Photos"
  by (simp add: hideFullscreenPhoto_def Let_def prim_defs)

lemma hideNewPhotoIndicator_currentView [simp]:
  "currentView (hideNewPhotoIndicator s) = currentView s"
  by (simp add: hideNewPhotoIndicator_def prim_defs)

lemma moveFocus_currentView [simp]:
  "currentView (moveFocusLeft s) = currentView s"
  "currentView (moveFocusRight s) = currentView s"
  by (simp_all add: moveFocusLeft_def moveFocusRight_def)

lemma playVideo_currentView:
  "currentView (finish (playVideo s)) =
    (case sceneAssets (currentScene s) of None \<Rightarrow> currentView s
     | Some sc \<Rightarrow> if truthy (video sc) then Video else currentView s)"
  by (simp add: playVideo_def Let_def prim_defs split: option.splits)

lemma handleEnter_currentView:
  "currentView (finish (handleEnter s)) =
    (if currentView s = Dashboard then
       (case sceneAssets (currentScene s) of None \<Rightarrow> Dashboard
        | Some sc \<Rightarrow> if truthy (video sc) then Video
                     else if currentScene s = Some ''MyPhotos'' then Photos else Dashboard)
     else currentView s)"
  using playVideo_currentView [of s]
  by (simp add: handleEnter_def split: option.splits)

lemma navigateDown_currentView:
  "currentView (finish (navigateDown s)) =
    (if currentView s = Dashboard \<or> currentView s = Photos then
       (if sceneOrder_at (js_rem (sceneIndex s + 1) 8) = Some ''MyPhotos'' then Photos else Dashboard)
     else currentView s)"
  by (simp add: navigateDown_def Let_def)

lemma navigateUp_currentView:
  "currentView (finish (navigateUp s)) =
    (if currentView s = Dashboard \<or> currentView s = Photos then
       (if sceneOrder_at (js_rem (sceneIndex s - 1 + 8) 8) = Some ''MyPhotos'' then Photos
        else Dashboard)
     else currentView s)"
  by (simp add: navigateUp_def Let_def)

lemma handleBack_currentView:
  "currentView (handleBack s) =
    (case currentView s of Video \<Rightarrow> Dashboard | Photos \<Rightarrow> Dashboard | Fullscreen \<Rightarrow> Photos
     | Dashboard \<Rightarrow> Dashboard)"
  by (cases "currentView s") (simp_all add: handleBack_def)

lemma js_rem_nonneg: "0 \<le> a \<Longrightarrow> 0 < b \<Longrightarrow> js_rem a b = a mod b"
  by (cases "a = 0") (simp_all add: js_rem_def)

lemma sceneOrder_at_gallery:
  assumes "0 \<le> i" and "i < 8"
  shows "(sceneOrder_at i = Some ''MyPhotos'') = (i = 7)"
proof -
  from assms have "i = 0 \<or> i = 1 \<or> i = 2 \<or> i = 3 \<or> i = 4 \<or> i = 5 \<or> i = 6 \<or> i = 7"
    by arith
  then show ?thesis by (auto simp add: sceneOrder_at_def sceneOrder_def)
qed

subsection \<open>Circular navigation\<close>

lemma moveNext_sceneIndex:
  "navigable s \<Longrightarrow> sceneIndex (moveNext s) = (sceneIndex s + 1) mod 8"
  by (auto simp add: moveNext_def navigateDown_def navigable_def Let_def js_rem_nonneg)

lemma movePrevious_sceneIndex:
  "navigable s \<Longrightarrow> sceneIndex (movePrevious s) = (sceneIndex s - 1 + 8) mod 8"
  by (auto simp add: movePrevious_def navigateUp_def navigable_def Let_def js_rem_nonneg)

lemma moveNext_navigable: "navigable s \<Longrightarrow> navigable (moveNext s)"
  unfolding navigable_def moveNext_sceneIndex [unfolded navigable_def]
  by (auto simp add: moveNext_def navigateDown_def Let_def js_rem_nonneg)

lemma movePrevious_navigable: "navigable s \<Longrightarrow> navigable (movePrevious s)"
  unfolding navigable_def movePrevious_sceneIndex [unfolded navigable_def]
  by (auto simp add: movePrevious_def navigateUp_def Let_def js_rem_nonneg)

lemma moveNext_currentView:
  "navigable s \<Longrightarrow>
    currentView (moveNext s) = (if sceneIndex (moveNext s) = 7 then Photos else Dashboard)"
  using moveNext_navigable [of s] moveNext_sceneIndex [of s]
  by (auto simp add: moveNext_def navigateDown_def navigable_def Let_def js_rem_nonneg
      sceneOrder_at_gallery)

lemma moveNext_currentScene:
  "navigable s \<Longrightarrow> currentScene (moveNext s) = sceneOrder_at (sceneIndex (moveNext s))"
  by (auto simp add: moveNext_def navigateDown_def navigable_def Let_def)

lemma moves_navigable: "navigable s \<Longrightarrow> navigable (moves ms s)"
  by (induction ms s rule: moves.induct) (simp_all add: moveNext_navigable movePrevious_navigable)

lemma startup_fields:
  "currentView (startup cls g now) = Dashboard"
  "sceneIndex (startup cls g now) = 0"
  "currentScene (startup cls g now) = Some ''SmartBrick1''"
  "photos (startup cls g now) = []"
  "lastPhotoCount (startup cls g now) = 0"
  "focusedPhotoIndex (startup cls g now) = 0"
  "classes (startup cls g now) = cls"
  "stateFetches (startup cls g now) = 0"
  "photoFetches (startup cls g now) = 0"
  by (simp_all add: startup_def initial_def updateScene_def sceneOrder_at_def
      sceneOrder_def sceneAssets_def sceneAssets_list_def startPolling_def emit_def truthy_def
      Let_def)

lemma startup_navigable: "navigable (startup cls g now)"
  by (simp add: navigable_def startup_fields)

lemmas nav_eval = moveNext_currentView moveNext_currentScene moveNext_sceneIndex
  moveNext_navigable startup_navigable startup_fields

lemma moveNext_pow:
  "navigable s \<Longrightarrow>
    navigable ((moveNext ^^ k) s) \<and> sceneIndex ((moveNext ^^ k) s) = (sceneIndex s + int k) mod 8"
proof (induction k)
  case 0
  then show ?case by (simp add: navigable_def)
next
  case (Suc k)
  then have nav: "navigable ((moveNext ^^ k) s)"
    and idx: "sceneIndex ((moveNext ^^ k) s) = (sceneIndex s + int k) mod 8" by simp_all
  have "sceneIndex (moveNext ((moveNext ^^ k) s)) = ((sceneIndex s + int k) mod 8 + 1) mod 8"
    using moveNext_sceneIndex [OF nav] idx by simp
  also have "\<dots> = (sceneIndex s + int (Suc k)) mod 8"
    by (simp add: mod_simps algebra_simps)
  finally show ?case using moveNext_navigable [OF nav] by simp
qed

lemma movePrevious_currentScene:
  "navigable s \<Longrightarrow> currentScene (movePrevious s) = sceneOrder_at (sceneIndex (movePrevious s))"
  by (auto simp add: movePrevious_def navigateUp_def navigable_def Let_def)

text \<open>
  C4. Whatever sequence of \<open>moveNext\<close> and \<open>movePrevious\<close> is applied to the state the page
  starts in, the scene index stays inside the traversal order (from 0 up to its length \<open>n\<close>
  minus one). From the state reached, \<open>moveNext\<close> takes the index \<open>i\<close> to
  \<open>(i + 1) mod n\<close> and \<open>movePrevious\<close> takes it to \<open>(i - 1 + n) mod n\<close>, the current
  scene becoming the entry of the order at the new index; each undoes the other on the
  index; and \<open>n\<close> times \<open>moveNext\<close> bring the index back to where it was.
\<close>

theorem sceneIndex_in_range_and_wraps:
  fixes ms :: "move list" and cls :: "(elem \<times> string) set" and g :: grid and now :: int
  defines "s \<equiv> moves ms (startup cls g now)"
  defines "n \<equiv> int (length sceneOrder)"
  shows "0 \<le> sceneIndex s \<and> sceneIndex s < n \<and>
    sceneIndex (moveNext s) = (sceneIndex s + 1) mod n \<and>
    sceneIndex (movePrevious s) = (sceneIndex s - 1 + n) mod n \<and>
    currentScene (moveNext s) = sceneOrder_at ((sceneIndex s + 1) mod n) \<and>
    currentScene (movePrevious s) = sceneOrder_at ((sceneIndex s - 1 + n) mod n) \<and>
    sceneIndex (movePrevious (moveNext s)) = sceneIndex s \<and>
    sceneIndex (moveNext (movePrevious s)) = sceneIndex s \<and>
    sceneIndex ((moveNext ^^ length sceneOrder) s) = sceneIndex s"
proof -
  have nav: "navigable s"
    unfolding s_def by (rule moves_navigable [OF startup_navigable])
  have range: "0 \<le> sceneIndex s" "sceneIndex s < 8"
    using nav by (simp_all add: navigable_def)
  have nx: "sceneIndex (moveNext s) = (sceneIndex s + 1) mod 8"
    by (rule moveNext_sceneIndex [OF nav])
  have pv: "sceneIndex (movePrevious s) = (sceneIndex s - 1 + 8) mod 8"
    by (rule movePrevious_sceneIndex [OF nav])
  have pn: "sceneIndex (movePrevious (moveNext s)) = sceneIndex s"
    using movePrevious_sceneIndex [OF moveNext_navigable [OF nav]] nx range
    by (simp add: mod_simps)
  have np: "sceneIndex (moveNext (movePrevious s)) = sceneIndex s"
    using moveNext_sceneIndex [OF movePrevious_navigable [OF nav]] pv range
    by (simp add: mod_simps)
  show ?thesis
    using range nx pv pn np moveNext_currentScene [OF nav] movePrevious_currentScene [OF nav]
      moveNext_pow [OF nav, of 8]
    by (simp add: n_def)
qed

theorem sceneIndex_in_range_and_wraps_witness:
  "sceneIndex (moves [Previous, Next, Next] (startup {} Placeholder 0)) = 1 \<and>
   sceneIndex (moveNext (moves [Previous, Next, Next] (startup {} Placeholder 0))) = 2 \<and>
   currentScene (moveNext (moves [Previous, Next, Next] (startup {} Placeholder 0)))
     = Some ''City'' \<and>
   sceneIndex (movePrevious (startup {} Placeholder 0)) = 7 \<and>
   currentScene (movePrevious (startup {} Placeholder 0)) = Some ''MyPhotos''"
  using sceneIndex_in_range_and_wraps [of "[Previous, Next, Next]" "{}" Placeholder 0]
    sceneIndex_in_range_and_wraps [of "[]" "{}" Placeholder 0]
  by (simp add: nav_eval movePrevious_sceneIndex movePrevious_navigable sceneOrder_at_def
      sceneOrder_def)

subsection \<open>Navigation and the view\<close>

text \<open>
  C2, as the claim states it, fails: six \<open>moveNext\<close> from the start reach the scene before
  the gallery with the view still Dashboard, and the seventh, which lands on the gallery
  scene, changes the view to Photos.
\<close>

theorem moveNext_leaves_dashboard:
  "currentView (moves [Next, Next, Next, Next, Next, Next] (startup {} Placeholder 0)) = Dashboard \<and>
   currentView (moveNext (moves [Next, Next, Next, Next, Next, Next] (startup {} Placeholder 0)))
     \<noteq> Dashboard"
  by (simp add: nav_eval)

text \<open>
  C2, amended. From every state whose view is Dashboard, \<open>moveNext\<close> and \<open>movePrevious\<close>
  leave the view Dashboard unless the scene they land on is the gallery scene; when it is,
  the view becomes Photos.
\<close>

theorem navigation_enters_gallery:
  "currentView s = Dashboard \<Longrightarrow>
    currentView (moveNext s)
      = (if currentScene (moveNext s) = Some ''MyPhotos'' then Photos else Dashboard) \<and>
    currentView (movePrevious s)
      = (if currentScene (movePrevious s) = Some ''MyPhotos'' then Photos else Dashboard)"
  by (simp add: moveNext_def movePrevious_def navigateDown_def navigateUp_def Let_def)

theorem navigation_enters_gallery_witness:
  "currentView (startup {} Placeholder 0) = Dashboard \<and>
   currentScene (moveNext (startup {} Placeholder 0)) = Some ''SmartBrick2'' \<and>
   currentView (moveNext (startup {} Placeholder 0)) = Dashboard \<and>
   currentScene (movePrevious (startup {} Placeholder 0)) = Some ''MyPhotos'' \<and>
   currentView (movePrevious (startup {} Placeholder 0)) = Photos"
  using navigation_enters_gallery [of "startup {} Placeholder 0"]
  by (simp add: startup_fields movePrevious_def moveNext_def navigateUp_def navigateDown_def
      Let_def js_rem_def sceneOrder_at_def sceneOrder_def)

subsection \<open>Back, and entering the gallery\<close>

lemma stopVideo_trace:
  "trace (stopVideo s) = trace s @ [ConsoleLog ''Stopping video'', VideoPause, SetSrc videoSource []]"
  by (simp add: stopVideo_def Let_def prim_defs)

text \<open>
  C5. \<open>dismiss\<close> is \<open>handleBack\<close>. From Video it returns to Dashboard and stops the video
  (the video element is paused and its source cleared); from Fullscreen it returns to Photos;
  from Photos to Dashboard; in Dashboard it changes nothing. Hence entering Video from
  Dashboard and dismissing ends in Dashboard, and entering Fullscreen from Photos and
  dismissing twice ends in Dashboard by way of Photos.
\<close>

theorem dismiss_inverts_entries:
  "(currentView s = Video \<longrightarrow>
      currentView (handleBack s) = Dashboard \<and>
      trace (handleBack s)
        = trace s @ [ConsoleLog ''Stopping video'', VideoPause, SetSrc videoSource []]) \<and>
   (currentView s = Fullscreen \<longrightarrow> currentView (handleBack s) = Photos) \<and>
   (currentView s = Photos \<longrightarrow> currentView (handleBack s) = Dashboard) \<and>
   (currentView s = Dashboard \<longrightarrow> handleBack s = s) \<and>
   (currentView s = Dashboard \<and> sceneAssets (currentScene s) = Some sc \<and> truthy (video sc) \<longrightarrow>
      currentView (finish (handleEnter s)) = Video \<and>
      currentView (handleBack (finish (handleEnter s))) = Dashboard) \<and>
   (currentView s = Photos \<longrightarrow>
      currentView (showFullscreenPhoto (Some p) s) = Fullscreen \<and>
      currentView (handleBack (showFullscreenPhoto (Some p) s)) = Photos \<and>
      currentView (handleBack (handleBack (showFullscreenPhoto (Some p) s))) = Dashboard)"
  by (simp add: handleBack_currentView handleEnter_currentView)
     (simp add: handleBack_def stopVideo_trace)

lemma sceneAssets_City:
  "sceneAssets (Some ''City'')
    = Some \<lparr>img = Some ''assets/city1.jpg'', video = Some ''assets/city.mp4'', title = ''City''\<rparr>"
  by (simp add: sceneAssets_def sceneAssets_list_def)

theorem dismiss_inverts_entries_witness:
  "handleBack (startup {} Placeholder 0) = startup {} Placeholder 0 \<and>
   currentView (finish (handleEnter (moves [Next, Next] (startup {} Placeholder 0)))) = Video \<and>
   currentView (handleBack (finish (handleEnter (moves [Next, Next] (startup {} Placeholder 0)))))
     = Dashboard \<and>
   currentView (movePrevious (startup {} Placeholder 0)) = Photos \<and>
   currentView (showFullscreenPhoto (Some \<lparr>filename = ''a.jpg'', caption = None, created_at = Fin 0\<rparr>)
      (movePrevious (startup {} Placeholder 0))) = Fullscreen \<and>
   currentView (handleBack (handleBack
      (showFullscreenPhoto (Some \<lparr>filename = ''a.jpg'', caption = None, created_at = Fin 0\<rparr>)
        (movePrevious (startup {} Placeholder 0))))) = Dashboard"
  using dismiss_inverts_entries [of "startup {} Placeholder 0"]
    dismiss_inverts_entries [of "moves [Next, Next] (startup {} Placeholder 0)"
      "\<lparr>img = Some ''assets/city1.jpg'', video = Some ''assets/city.mp4'', title = ''City''\<rparr>"]
    dismiss_inverts_entries [of "finish (handleEnter (moves [Next, Next] (startup {} Placeholder 0)))"]
    dismiss_inverts_entries [of "movePrevious (startup {} Placeholder 0)" _
      "\<lparr>filename = ''a.jpg'', caption = None, created_at = Fin 0\<rparr>"]
  by (simp add: nav_eval sceneOrder_at_def sceneOrder_def sceneAssets_City truthy_def
      handleEnter_currentView movePrevious_def navigateUp_currentView js_rem_def)

lemma loadPhotos_fields [simp]:
  "focusedPhotoIndex (loadPhotos s) = focusedPhotoIndex s"
  "photoFetches (loadPhotos s) = photoFetches s + 1"
  "trace (loadPhotos s) = trace s @ [Fetch (BACKEND_URL @ ''/api/photos'')]"
  by (simp_all add: loadPhotos_def)

lemma showPhotoGallery_refresh:
  "focusedPhotoIndex (showPhotoGallery s) = 0"
  "photoFetches (showPhotoGallery s) = photoFetches s + 1"
  "last (trace (showPhotoGallery s)) = Fetch (BACKEND_URL @ ''/api/photos'')"
  by (simp_all add: showPhotoGallery_def Let_def prim_defs)

lemma updateScene_entry:
  assumes "currentView s \<noteq> Photos" and "currentView (finish (updateScene n s)) = Photos"
  shows "focusedPhotoIndex (finish (updateScene n s)) = 0 \<and>
    photoFetches (finish (updateScene n s)) = photoFetches s + 1 \<and>
    last (trace (finish (updateScene n s))) = Fetch (BACKEND_URL @ ''/api/photos'')"
proof -
  from assms have n: "n = Some ''MyPhotos''" by (simp split: if_splits)
  show ?thesis by (simp add: n updateScene_def Let_def showPhotoGallery_refresh)
qed

lemma navigateDown_entry:
  assumes "currentView s \<noteq> Photos" and "currentView (finish (navigateDown s)) = Photos"
  shows "focusedPhotoIndex (finish (navigateDown s)) = 0 \<and>
    photoFetches (finish (navigateDown s)) = photoFetches s + 1 \<and>
    last (trace (finish (navigateDown s))) = Fetch (BACKEND_URL @ ''/api/photos'')"
proof (cases "currentView s = Dashboard")
  case True
  let ?s2 = "s\<lparr>sceneIndex := js_rem (sceneIndex s + 1) (int (length sceneOrder))\<rparr>"
  have eq: "navigateDown s = updateScene (sceneOrder_at (sceneIndex ?s2)) ?s2"
    using True by (simp add: navigateDown_def Let_def)
  show ?thesis
    using updateScene_entry [of ?s2 "sceneOrder_at (sceneIndex ?s2)"] assms True
    unfolding eq by simp
next
  case False
  with assms show ?thesis by (simp add: navigateDown_def)
qed

lemma navigateUp_entry:
  assumes "currentView s \<noteq> Photos" and "currentView (finish (navigateUp s)) = Photos"
  shows "focusedPhotoIndex (finish (navigateUp s)) = 0 \<and>
    photoFetches (finish (navigateUp s)) = photoFetches s + 1 \<and>
    last (trace (finish (navigateUp s))) = Fetch (BACKEND_URL @ ''/api/photos'')"
proof (cases "currentView s = Dashboard")
  case True
  let ?s2 = "s\<lparr>sceneIndex :=
    js_rem (sceneIndex s - 1 + int (length sceneOrder)) (int (length sceneOrder))\<rparr>"
  have eq: "navigateUp s = updateScene (sceneOrder_at (sceneIndex ?s2)) ?s2"
    using True by (simp add: navigateUp_def Let_def)
  show ?thesis
    using updateScene_entry [of ?s2 "sceneOrder_at (sceneIndex ?s2)"] assms True
    unfolding eq by simp
next
  case False
  with assms show ?thesis by (simp add: navigateUp_def)
qed

lemma handleEnter_entry:
  assumes "currentView s \<noteq> Photos" and "currentView (finish (handleEnter s)) = Photos"
  shows "focusedPhotoIndex (finish (handleEnter s)) = 0 \<and>
    photoFetches (finish (handleEnter s)) = photoFetches s + 1 \<and>
    last (trace (finish (handleEnter s))) = Fetch (BACKEND_URL @ ''/api/photos'')"
proof -
  from assms obtain sc where d: "currentView s = Dashboard"
    and sc: "sceneAssets (currentScene s) = Some sc" "\<not> truthy (video sc)"
    and g: "currentScene s = Some ''MyPhotos''"
    by (auto simp add: handleEnter_currentView split: if_splits option.splits)
  then have "handleEnter s = Returned (showPhotoGallery s)"
    by (simp add: handleEnter_def)
  then show ?thesis by (simp add: showPhotoGallery_refresh)
qed

lemma keydown_entry:
  assumes "currentView s \<noteq> Photos" and "currentView s \<noteq> Fullscreen"
    and "currentView (keydown k s) = Photos"
  shows "focusedPhotoIndex (keydown k s) = 0 \<and> photoFetches (keydown k s) = photoFetches s + 1 \<and>
    last (trace (keydown k s)) = Fetch (BACKEND_URL @ ''/api/photos'')"
proof -
  let ?s0 = "emit [ConsoleLogNumber ''Key pressed:'' k] s"
  have v0: "currentView ?s0 \<noteq> Photos" using assms(1) by simp
  consider "k = 38" | "k = 40" | "k = 13" | "k \<noteq> 38 \<and> k \<noteq> 40 \<and> k \<noteq> 13" by blast
  then show ?thesis
  proof cases
    case 1
    then have "keydown k s = finish (navigateUp ?s0)" by (simp add: keydown_def Let_def)
    with navigateUp_entry [OF v0] assms(3) show ?thesis by simp
  next
    case 2
    then have "keydown k s = finish (navigateDown ?s0)" by (simp add: keydown_def Let_def)
    with navigateDown_entry [OF v0] assms(3) show ?thesis by simp
  next
    case 3
    then have "keydown k s = finish (handleEnter ?s0)" by (simp add: keydown_def Let_def)
    with handleEnter_entry [OF v0] assms(3) show ?thesis by simp
  next
    case 4
    with assms have False
      by (simp add: keydown_def Let_def handleBack_currentView split: if_splits view.splits)
    then show ?thesis ..
  qed
qed

lemma step_not_fullscreen:
  "currentView s \<noteq> Fullscreen \<Longrightarrow> currentView (step e s) \<noteq> Fullscreen"
  by (cases e)
     (simp_all add: step_def keydown_def Let_def navigateUp_currentView navigateDown_currentView
        handleEnter_currentView handleBack_currentView split: option.splits view.splits)

lemma run_not_fullscreen:
  "currentView s \<noteq> Fullscreen \<Longrightarrow> currentView (run es s) \<noteq> Fullscreen"
  by (induction es arbitrary: s) (simp_all add: step_not_fullscreen)

text \<open>
  C10. In every state the page can reach from start-up, whatever event takes the view from
  something other than Photos to Photos (Enter on the gallery scene, or Up or Down landing on
  it) sets \<open>focusedPhotoIndex\<close> to 0 and sends a request for the photo list: the focus
  held when the view was left is not kept.
\<close>

theorem entering_photos_resets_focus_and_refreshes:
  assumes "s = run es (startup cls g now)"
    and "currentView s \<noteq> Photos"
    and "currentView (step e s) = Photos"
  shows "focusedPhotoIndex (step e s) = 0 \<and> photoFetches (step e s) = photoFetches s + 1 \<and>
    last (trace (step e s)) = Fetch (BACKEND_URL @ ''/api/photos'')"
proof -
  have nf: "currentView s \<noteq> Fullscreen"
    using assms(1) run_not_fullscreen [of "startup cls g now" es] by (simp add: startup_fields)
  show ?thesis
  proof (cases e)
    case (Keydown k)
    with keydown_entry [OF assms(2) nf, of k] assms(3) show ?thesis by (simp add: step_def)
  qed (use assms(2,3) in \<open>simp_all add: step_def split: if_splits\<close>)
qed

lemmas eval_defs = step_def keydown_def handleEnter_def handleBack_def navigateUp_def
  navigateDown_def updateScene_def moveFocusLeft_def moveFocusRight_def loadPhotos_resume_def
  poll_resume_def poll_tick_def startup_def initial_def startPolling_def sceneOrder_at_def
  sceneOrder_def sceneAssets_def sceneAssets_list_def truthy_def js_rem_def finish_def
  string_or_undefined_def gallery_defs prim_defs Let_def

theorem entering_photos_resets_focus_and_refreshes_witness:
  "currentView (run [Keydown 38, Keydown 27] (startup {} Placeholder 0)) = Dashboard \<and>
   currentView (step (Keydown 13) (run [Keydown 38, Keydown 27] (startup {} Placeholder 0)))
     = Photos \<and>
   focusedPhotoIndex (step (Keydown 13) (run [Keydown 38, Keydown 27] (startup {} Placeholder 0)))
     = 0 \<and>
   photoFetches (step (Keydown 13) (run [Keydown 38, Keydown 27] (startup {} Placeholder 0))) = 2"
  using entering_photos_resets_focus_and_refreshes
    [of _ "[Keydown 38, Keydown 27]" "{}" Placeholder 0 "Keydown 13", OF refl]
  by (simp add: eval_defs)

subsection \<open>Requests that fail\<close>

lemma emit_nothing [simp]: "emit [] s = s"
  by (simp add: emit_def)

text \<open>
  C7, amended. When a request fails (rejected fetch, status outside 2xx, or a 2xx body that
  is not JSON), the second part of \<open>loadPhotos\<close> and of the polling callback leave every
  variable as it was, throw nothing, and write one line to the error console when the fetch
  was rejected or the body was not JSON; on a status outside 2xx they write nothing at all.
\<close>

theorem failed_fetch_keeps_state:
  assumes "fetch_failed r" and "fetch_failed q"
  shows "loadPhotos_resume r s
      = emit (if non_2xx r then [] else [ConsoleError ''Error loading photos:'']) s \<and>
    poll_resume q s = emit (if non_2xx q then [] else [ConsoleError ''Polling error:'']) s"
  using assms
  by (simp add: fetch_failed_def non_2xx_def loadPhotos_resume_def poll_resume_def
      split: response.splits)

text \<open>
  C7, as the claim states it, fails on the logging: a response with a status outside 2xx is
  a failed fetch, and the trace (console included) after it is the trace before it.
\<close>

theorem non_2xx_not_logged:
  "fetch_failed (Http False (None :: photo list option)) \<and>
   trace (loadPhotos_resume (Http False None) (startup {} Placeholder 0))
     = trace (startup {} Placeholder 0)"
  by (simp add: fetch_failed_def loadPhotos_resume_def)

theorem failed_fetch_keeps_state_witness:
  "loadPhotos_resume NetworkError (startup {} Placeholder 0)
     = emit [ConsoleError ''Error loading photos:''] (startup {} Placeholder 0) \<and>
   poll_resume (Http False (Some 3)) (startup {} Placeholder 0) = startup {} Placeholder 0"
  using failed_fetch_keeps_state [of NetworkError "Http False (Some 3)" "startup {} Placeholder 0"]
  by (simp add: fetch_failed_def non_2xx_def)

subsection \<open>Polling in Dashboard, then opening the gallery\<close>

lemma poll_resume_fields [simp]:
  "photos (poll_resume r s) = photos s"
  "classes (poll_resume r s) = classes s"
  "currentScene (poll_resume r s) = currentScene s"
  "focusedPhotoIndex (poll_resume r s) = focusedPhotoIndex s"
  by (simp_all add: poll_resume_def loadPhotos_def split: response.splits option.splits)

lemma poll_resume_indicator [simp]:
  "pendingNewIndicator (poll_resume r s) = pendingNewIndicator s"
  by (simp add: pendingNewIndicator_def)

lemma poll_resume_lastPhotoCount:
  "lastPhotoCount (poll_resume r s) =
    (case r of Http True (Some t) \<Rightarrow>
        if t > lastPhotoCount s \<and> currentView s \<noteq> Photos then t else lastPhotoCount s
     | _ \<Rightarrow> lastPhotoCount s)"
  by (simp add: poll_resume_def loadPhotos_def split: response.splits option.splits bool.splits)

lemma poll_resume_photoFetches:
  "photoFetches (poll_resume r s) =
    (case r of Http True (Some t) \<Rightarrow>
        if t > lastPhotoCount s \<and> currentView s = Photos then photoFetches s + 1 else photoFetches s
     | _ \<Rightarrow> photoFetches s)"
  by (simp add: poll_resume_def loadPhotos_def split: response.splits option.splits bool.splits)

lemma showPhotoGallery_fields [simp]:
  "photos (showPhotoGallery s) = photos s"
  "lastPhotoCount (showPhotoGallery s) = lastPhotoCount s"
  "pendingNewIndicator (showPhotoGallery s) = pendingNewIndicator s"
  by (simp_all add: showPhotoGallery_def loadPhotos_def pendingNewIndicator_def Let_def prim_defs)

lemma renderPhotoGrid_fields [simp]:
  "photos (renderPhotoGrid s) = photos s"
  "lastPhotoCount (renderPhotoGrid s) = lastPhotoCount s"
  "focusedPhotoIndex (renderPhotoGrid s) = focusedPhotoIndex s"
  "classes (renderPhotoGrid s) = classes s"
  "trace (renderPhotoGrid s) = trace s"
  "photoFetches (renderPhotoGrid s) = photoFetches s"
  by (simp_all add: renderPhotoGrid_def)

lemma loadPhotos_resume_ok_fields [simp]:
  "photos (loadPhotos_resume (Http True (Some data)) s) = data"
  "lastPhotoCount (loadPhotos_resume (Http True (Some data)) s) = int (length data)"
  "focusedPhotoIndex (loadPhotos_resume r s) = focusedPhotoIndex s"
  by (simp_all add: loadPhotos_resume_def showNewPhotoIndicator_def Let_def prim_defs
      split: response.splits option.splits)

lemma loadPhotos_resume_indicator:
  "pendingNewIndicator (loadPhotos_resume (Http True (Some data)) s)
    = (int (length data) > lastPhotoCount s \<or> pendingNewIndicator s)"
  by (simp add: loadPhotos_resume_def showNewPhotoIndicator_def Let_def prim_defs
      pendingNewIndicator_def)

lemma stopVideo_lastPhotoCount [simp]: "lastPhotoCount (stopVideo s) = lastPhotoCount s"
  by (simp add: stopVideo_def Let_def prim_defs)

lemma hidePhotoGallery_lastPhotoCount [simp]:
  "lastPhotoCount (hidePhotoGallery s) = lastPhotoCount s"
  by (simp add: hidePhotoGallery_def Let_def prim_defs)

lemma hideFullscreenPhoto_lastPhotoCount [simp]:
  "lastPhotoCount (hideFullscreenPhoto s) = lastPhotoCount s"
  by (simp add: hideFullscreenPhoto_def Let_def prim_defs)

lemma loadPhotos_lastPhotoCount [simp]: "lastPhotoCount (loadPhotos s) = lastPhotoCount s"
  by (simp add: loadPhotos_def)

lemma updateScene_lastPhotoCount [simp]:
  "lastPhotoCount (finish (updateScene n s)) = lastPhotoCount s"
  by (simp add: updateScene_def Let_def split: option.splits)

lemma navigate_lastPhotoCount [simp]:
  "lastPhotoCount (finish (navigateUp s)) = lastPhotoCount s"
  "lastPhotoCount (finish (navigateDown s)) = lastPhotoCount s"
  by (simp_all add: navigateUp_def navigateDown_def Let_def)

lemma playVideo_lastPhotoCount [simp]: "lastPhotoCount (finish (playVideo s)) = lastPhotoCount s"
  by (simp add: playVideo_def Let_def prim_defs split: option.splits)

lemma handleEnter_lastPhotoCount [simp]:
  "lastPhotoCount (finish (handleEnter s)) = lastPhotoCount s"
  by (simp add: handleEnter_def split: option.splits)

lemma handleBack_lastPhotoCount [simp]: "lastPhotoCount (handleBack s) = lastPhotoCount s"
  by (simp add: handleBack_def)

lemma moveFocus_lastPhotoCount [simp]:
  "lastPhotoCount (moveFocusLeft s) = lastPhotoCount s"
  "lastPhotoCount (moveFocusRight s) = lastPhotoCount s"
  by (simp_all add: moveFocusLeft_def moveFocusRight_def)

lemma keydown_lastPhotoCount [simp]: "lastPhotoCount (keydown k s) = lastPhotoCount s"
  by (simp add: keydown_def Let_def)

lemma prim_indicator [simp]:
  "pendingNewIndicator (emit es s) = pendingNewIndicator s"
  "e \<noteq> newPhotoIndicator \<Longrightarrow> pendingNewIndicator (classAdd e c s) = pendingNewIndicator s"
  "e \<noteq> newPhotoIndicator \<Longrightarrow> pendingNewIndicator (classRemove e c s) = pendingNewIndicator s"
  "pendingNewIndicator (s\<lparr>currentView := v\<rparr>) = pendingNewIndicator s"
  "pendingNewIndicator (s\<lparr>currentScene := n\<rparr>) = pendingNewIndicator s"
  "pendingNewIndicator (s\<lparr>sceneIndex := i\<rparr>) = pendingNewIndicator s"
  "pendingNewIndicator (s\<lparr>focusedPhotoIndex := i\<rparr>) = pendingNewIndicator s"
  "pendingNewIndicator (s\<lparr>onended := b\<rparr>) = pendingNewIndicator s"
  by (auto simp add: pendingNewIndicator_def prim_defs)

lemma prim_photos [simp]:
  "photos (classAdd e c s) = photos s"
  "photos (classRemove e c s) = photos s"
  by (simp_all add: prim_defs)

lemma stopVideo_keeps [simp]:
  "photos (stopVideo s) = photos s"
  "pendingNewIndicator (stopVideo s) = pendingNewIndicator s"
  by (simp_all add: stopVideo_def Let_def)

lemma hidePhotoGallery_keeps [simp]:
  "photos (hidePhotoGallery s) = photos s"
  "pendingNewIndicator (hidePhotoGallery s) = pendingNewIndicator s"
  by (simp_all add: hidePhotoGallery_def Let_def)

lemma hideFullscreenPhoto_keeps [simp]:
  "photos (hideFullscreenPhoto s) = photos s"
  "pendingNewIndicator (hideFullscreenPhoto s) = pendingNewIndicator s"
  by (simp_all add: hideFullscreenPhoto_def Let_def)

lemma loadPhotos_keeps [simp]:
  "photos (loadPhotos s) = photos s"
  "pendingNewIndicator (loadPhotos s) = pendingNewIndicator s"
  by (simp_all add: loadPhotos_def pendingNewIndicator_def)

lemma updateScene_keeps [simp]:
  "photos (finish (updateScene n s)) = photos s"
  "pendingNewIndicator (finish (updateScene n s)) = pendingNewIndicator s"
  by (simp_all add: updateScene_def Let_def split: option.splits)

lemma navigate_keeps [simp]:
  "photos (finish (navigateUp s)) = photos s"
  "photos (finish (navigateDown s)) = photos s"
  "pendingNewIndicator (finish (navigateUp s)) = pendingNewIndicator s"
  "pendingNewIndicator (finish (navigateDown s)) = pendingNewIndicator s"
  by (simp_all add: navigateUp_def navigateDown_def Let_def)

lemma playVideo_keeps [simp]:
  "photos (finish (playVideo s)) = photos s"
  "pendingNewIndicator (finish (playVideo s)) = pendingNewIndicator s"
  by (simp_all add: playVideo_def Let_def split: option.splits)

lemma handleEnter_keeps [simp]:
  "photos (finish (handleEnter s)) = photos s"
  "pendingNewIndicator (finish (handleEnter s)) = pendingNewIndicator s"
  by (simp_all add: handleEnter_def split: option.splits)

lemma handleBack_keeps [simp]:
  "photos (handleBack s) = photos s"
  "pendingNewIndicator (handleBack s) = pendingNewIndicator s"
  by (simp_all add: handleBack_def)

lemma moveFocus_keeps [simp]:
  "photos (moveFocusLeft s) = photos s"
  "photos (moveFocusRight s) = photos s"
  "pendingNewIndicator (moveFocusLeft s) = pendingNewIndicator s"
  "pendingNewIndicator (moveFocusRight s) = pendingNewIndicator s"
  by (simp_all add: moveFocusLeft_def moveFocusRight_def pendingNewIndicator_def)

lemma keydown_keeps [simp]:
  "photos (keydown k s) = photos s"
  "pendingNewIndicator (keydown k s) = pendingNewIndicator s"
  by (simp_all add: keydown_def Let_def)

text \<open>
  C1, amended. With five photos known and held and the view Dashboard, a poll that reports
  seven raises \<open>lastPhotoCount\<close> to 7 and leaves the photos and the indicator alone. Whatever
  key then takes the view to Photos resets the focus and requests the list; when the seven
  photos arrive they replace the held ones, the count stays 7, and the indicator is as it was
  before the poll: this refresh does not show it, since 7 is not greater than 7.
\<close>

theorem poll_then_refresh_scenario:
  fixes s :: state and data :: "photo list" and k :: nat
  defines "s1 \<equiv> poll_resume (Http True (Some 7)) s"
  defines "s2 \<equiv> keydown k s1"
  defines "s3 \<equiv> loadPhotos_resume (Http True (Some data)) s2"
  assumes "lastPhotoCount s = 5" and "length (photos s) = 5" and "currentView s = Dashboard"
    and "currentView s2 = Photos" and "length data = 7"
  shows "lastPhotoCount s1 = 7 \<and> photos s1 = photos s \<and>
    pendingNewIndicator s1 = pendingNewIndicator s \<and>
    focusedPhotoIndex s2 = 0 \<and> photoFetches s2 = photoFetches s + 1 \<and>
    photos s3 = data \<and> lastPhotoCount s3 = 7 \<and>
    pendingNewIndicator s3 = pendingNewIndicator s"
proof -
  have v1: "currentView s1 \<noteq> Photos" "currentView s1 \<noteq> Fullscreen"
    using \<open>currentView s = Dashboard\<close> by (simp_all add: s1_def)
  have l1: "lastPhotoCount s1 = 7"
    using \<open>lastPhotoCount s = 5\<close> \<open>currentView s = Dashboard\<close>
    by (simp add: s1_def poll_resume_lastPhotoCount)
  have f1: "photoFetches s1 = photoFetches s"
    using \<open>lastPhotoCount s = 5\<close> \<open>currentView s = Dashboard\<close>
    by (simp add: s1_def poll_resume_photoFetches)
  have e2: "focusedPhotoIndex s2 = 0 \<and> photoFetches s2 = photoFetches s1 + 1"
    using keydown_entry [OF v1, of k] \<open>currentView s2 = Photos\<close> by (simp add: s2_def)
  have i3: "pendingNewIndicator s3 = pendingNewIndicator s"
    using \<open>length data = 7\<close> l1
    by (simp add: s3_def s2_def loadPhotos_resume_indicator) (simp add: s1_def)
  show ?thesis
    using l1 f1 e2 i3 \<open>length data = 7\<close> by (simp add: s3_def) (simp add: s1_def)
qed

lemma five_known_fields:
  "lastPhotoCount five_known = 5"
  "length (photos five_known) = 5"
  "currentView five_known = Dashboard"
  "currentScene five_known = Some ''MyPhotos''"
  "\<not> pendingNewIndicator five_known"
  by (simp_all add: five_known_def pendingNewIndicator_def eval_defs)

lemma enter_at_five_known:
  "currentView (keydown 13 (poll_resume (Http True (Some 7)) five_known)) = Photos"
  by (simp add: keydown_def Let_def handleEnter_currentView five_known_fields sceneAssets_def
      sceneAssets_list_def truthy_def)

text \<open>
  C1, as the claim states it, fails in its last part: in the example state the indicator is
  hidden, and after the poll, Enter and the arrival of seven photos it is still hidden.
\<close>

theorem refresh_after_poll_shows_no_indicator:
  "lastPhotoCount five_known = 5 \<and> length (photos five_known) = 5 \<and>
   currentView five_known = Dashboard \<and>
   lastPhotoCount (poll_resume (Http True (Some 7)) five_known) = 7 \<and>
   currentView (keydown 13 (poll_resume (Http True (Some 7)) five_known)) = Photos \<and>
   length (photos (loadPhotos_resume (Http True (Some (replicate 7 photo0)))
      (keydown 13 (poll_resume (Http True (Some 7)) five_known)))) = 7 \<and>
   \<not> pendingNewIndicator (loadPhotos_resume (Http True (Some (replicate 7 photo0)))
      (keydown 13 (poll_resume (Http True (Some 7)) five_known)))"
  by (simp add: poll_resume_lastPhotoCount five_known_fields loadPhotos_resume_indicator
      enter_at_five_known)

theorem poll_then_refresh_scenario_witness:
  "lastPhotoCount (poll_resume (Http True (Some 7)) five_known) = 7 \<and>
   photos (poll_resume (Http True (Some 7)) five_known) = photos five_known \<and>
   currentView (keydown 13 (poll_resume (Http True (Some 7)) five_known)) = Photos \<and>
   photos (loadPhotos_resume (Http True (Some (replicate 7 photo0)))
      (keydown 13 (poll_resume (Http True (Some 7)) five_known))) = replicate 7 photo0 \<and>
   pendingNewIndicator (loadPhotos_resume (Http True (Some (replicate 7 photo0)))
      (keydown 13 (poll_resume (Http True (Some 7)) five_known)))
     = pendingNewIndicator five_known"
  using poll_then_refresh_scenario [of five_known 13 "replicate 7 photo0"] enter_at_five_known
  by (simp add: five_known_fields)

subsection \<open>The known count and the order of the answers\<close>

lemma loadPhotos_resume_lastPhotoCount:
  "lastPhotoCount (loadPhotos_resume r s) =
    (case r of Http True (Some data) \<Rightarrow> int (length data) | _ \<Rightarrow> lastPhotoCount s)"
  by (simp add: loadPhotos_resume_def showNewPhotoIndicator_def Let_def prim_defs
      split: response.splits option.splits bool.splits)

lemma step_lastPhotoCount:
  "lastPhotoCount (step e s) = lastPhotoCount s \<or>
   observed_count e = Some (lastPhotoCount (step e s))"
proof (cases e)
  case (StateResponse r)
  then show ?thesis
    by (auto simp add: step_def poll_resume_lastPhotoCount
        split: response.splits option.splits bool.splits)
next
  case (PhotosResponse r)
  then show ?thesis
    by (auto simp add: step_def loadPhotos_resume_lastPhotoCount
        split: response.splits option.splits bool.splits)
qed (simp_all add: step_def hideNewPhotoIndicator_def poll_tick_def prim_defs)

lemma sorted_drop_second: "sorted (a # b # xs) \<Longrightarrow> sorted (a # xs)"
  by auto

lemma counts_sorted:
  "sorted (lastPhotoCount s # observed_counts es) \<Longrightarrow>
    sorted (lastPhotoCount s # counts_after es s)"
proof (induction es arbitrary: s)
  case Nil
  then show ?case by simp
next
  case (Cons e es)
  let ?s' = "step e s"
  have "lastPhotoCount s \<le> lastPhotoCount ?s' \<and> sorted (lastPhotoCount ?s' # observed_counts es)"
  proof (cases "observed_count e")
    case None
    then have "lastPhotoCount ?s' = lastPhotoCount s"
      using step_lastPhotoCount [of e s] by simp
    with Cons.prems None show ?thesis
      by (simp add: observed_counts_def)
  next
    case (Some c)
    with Cons.prems have srt: "sorted (lastPhotoCount s # c # observed_counts es)"
      by (simp add: observed_counts_def)
    from step_lastPhotoCount [of e s] Some
    consider "lastPhotoCount ?s' = lastPhotoCount s" | "lastPhotoCount ?s' = c" by auto
    then show ?thesis
    proof cases
      case 1
      with sorted_drop_second [OF srt] show ?thesis by simp
    next
      case 2
      with srt show ?thesis by simp
    qed
  qed
  with Cons.IH [of ?s'] show ?case by auto
qed

text \<open>
  C6, as the claim states it, fails. In this session every event is one the page can
  receive when it does, and the backend only grows: it holds three photos when the list is
  requested and five when the poll is sent. The answer to the poll arrives first and raises
  \<open>lastPhotoCount\<close> to 5; the answer to the earlier request for the list arrives after it
  and sets \<open>lastPhotoCount\<close> to 3.
\<close>

theorem stale_refresh_lowers_count:
  "feasible stale_refresh (startup {} Placeholder 0) \<and>
   counts_after stale_refresh (startup {} Placeholder 0) = [0, 0, 0, 5, 3]"
  by (simp add: stale_refresh_def eval_defs)

text \<open>
  C6, amended. A successful poll never lowers \<open>lastPhotoCount\<close>, whatever it reports. A
  successful refresh sets it to the number of photos received, whatever it was, and a
  failed one leaves it alone. Hence the count never goes down from one event to the next
  over any sequence of events in which the numbers reported by the successful answers, in
  the order the answers arrive and starting from the count already known, never go down:
  that is, when the backend only grows and no answer is overtaken by a later one.
\<close>

theorem lastPhotoCount_monotone_in_order:
  "lastPhotoCount s \<le> lastPhotoCount (poll_resume r s) \<and>
   lastPhotoCount (loadPhotos_resume (Http True (Some data)) s) = int (length data) \<and>
   (fetch_failed q \<longrightarrow> lastPhotoCount (loadPhotos_resume q s) = lastPhotoCount s) \<and>
   (sorted (lastPhotoCount s # observed_counts es) \<longrightarrow>
      sorted (lastPhotoCount s # counts_after es s))"
proof -
  have poll: "lastPhotoCount s \<le> lastPhotoCount (poll_resume r s)"
    by (simp add: poll_resume_lastPhotoCount split: response.splits option.splits bool.splits)
  have ok: "lastPhotoCount (loadPhotos_resume (Http True (Some data)) s) = int (length data)"
    by (simp add: loadPhotos_resume_lastPhotoCount)
  have failed: "fetch_failed q \<longrightarrow> lastPhotoCount (loadPhotos_resume q s) = lastPhotoCount s"
    by (auto simp add: loadPhotos_resume_lastPhotoCount fetch_failed_def
        split: response.splits option.splits bool.splits)
  from poll ok failed counts_sorted [of s es] show ?thesis by blast
qed

theorem lastPhotoCount_monotone_in_order_witness:
  "feasible growing_backend (startup {} Placeholder 0) \<and>
   observed_counts growing_backend = [2, 3, 3] \<and>
   counts_after growing_backend (startup {} Placeholder 0) = [0, 2, 2, 3, 3, 3] \<and>
   sorted (lastPhotoCount (startup {} Placeholder 0)
     # counts_after growing_backend (startup {} Placeholder 0)) \<and>
   lastPhotoCount (poll_resume (Http True (Some 1))
     (run growing_backend (startup {} Placeholder 0))) = 3"
  using lastPhotoCount_monotone_in_order
    [of "startup {} Placeholder 0" _ _ "Http False None" growing_backend]
    lastPhotoCount_monotone_in_order
    [of "run growing_backend (startup {} Placeholder 0)" "Http True (Some 1)"]
  by (simp add: growing_backend_def observed_counts_def fetch_failed_def
      poll_resume_lastPhotoCount eval_defs)

subsection \<open>Polling\<close>

lemma poll_tick_fields [simp]:
  "stateFetches (poll_tick s) = stateFetches s + 1"
  "trace (poll_tick s) = trace s @ [Fetch (BACKEND_URL @ ''/api/state'')]"
  by (simp_all add: poll_tick_def)

lemma ticks_stateFetches:
  "stateFetches (run (replicate n IntervalTick) s) = stateFetches s + n"
  by (induction n arbitrary: s) (simp_all add: step_def)

text \<open>
  C3, amended. Poll ticks can overlap: every firing of the interval sends a request for
  \<^verbatim>\<open>/api/state\<close>, however many earlier requests are still outstanding, so \<open>n\<close> firings with
  no response between them leave \<open>n\<close> more requests in flight. The callback has no guard.
\<close>

theorem every_tick_fetches:
  "stateFetches (step IntervalTick s) = stateFetches s + 1 \<and>
   trace (step IntervalTick s) = trace s @ [Fetch (BACKEND_URL @ ''/api/state'')] \<and>
   stateFetches (run (replicate n IntervalTick) s) = stateFetches s + n"
  by (simp add: step_def ticks_stateFetches)

text \<open>
  C3, as the claim states it, fails: after the first firing one request is in flight, and the
  next firing, with no response delivered, sends a second one.
\<close>

theorem poll_ticks_overlap:
  "stateFetches (step IntervalTick (startup {} Placeholder 0)) = 1 \<and>
   stateFetches (step IntervalTick (step IntervalTick (startup {} Placeholder 0))) = 2 \<and>
   trace (step IntervalTick (step IntervalTick (startup {} Placeholder 0)))
     = trace (startup {} Placeholder 0)
        @ [Fetch (BACKEND_URL @ ''/api/state''), Fetch (BACKEND_URL @ ''/api/state'')]"
  by (simp add: step_def startup_fields)

subsection \<open>Arithmetic of the doubles\<close>

text \<open>
  What is needed of the rounding to say which number a label shows: a double of at least 2
  and below \<open>2\<^sup>5\<^sup>3\<close> is a multiple of the step of its binade, and its quotient by a positive
  integer not above it rounds to a double with the same floor as the exact quotient.
\<close>

subsubsection \<open>Binades\<close>

lemma pow2_up_le: "p \<le> x \<Longrightarrow> pow2_up f x p \<le> x"
  by (induction f arbitrary: p) auto

lemma pow2_up_less: "0 < p \<Longrightarrow> x < p * 2 ^ f \<Longrightarrow> p \<le> x \<Longrightarrow> x < 2 * pow2_up f x p"
proof (induction f arbitrary: p)
  case 0
  then show ?case by simp
next
  case (Suc f)
  show ?case
  proof (cases "x < 2 * p")
    case True
    then show ?thesis by simp
  next
    case False
    then have "x < 2 * pow2_up f x (2 * p)"
      using Suc.prems by (intro Suc.IH) (simp_all add: mult.assoc)
    with False show ?thesis by simp
  qed
qed

lemma pow2_up_power: "\<exists>j\<le>f. pow2_up f x p = p * 2 ^ j"
proof (induction f arbitrary: p)
  case 0
  then show ?case by simp
next
  case (Suc f)
  show ?case
  proof (cases "x < 2 * p")
    case True
    then have "pow2_up (Suc f) x p = p * 2 ^ 0" by simp
    then show ?thesis by blast
  next
    case False
    from Suc.IH [of "2 * p"] obtain j where "j \<le> f" "pow2_up f x (2 * p) = 2 * p * 2 ^ j"
      by blast
    with False have "Suc j \<le> Suc f" "pow2_up (Suc f) x p = p * 2 ^ Suc j" by simp_all
    then show ?thesis by blast
  qed
qed

lemma pow2_down_bound: "0 < p \<Longrightarrow> pow2_down f x p \<le> p"
proof (induction f arbitrary: p)
  case 0
  then show ?case by simp
next
  case (Suc f)
  have "pow2_down f x (p / 2) \<le> p / 2" using Suc.prems by (intro Suc.IH) simp
  with Suc.prems show ?case by auto
qed

lemma pow2_down_pos: "0 < p \<Longrightarrow> 0 < pow2_down f x p"
  by (induction f arbitrary: p) auto

lemma binade:
  assumes "1 \<le> x" and "x < 2 ^ 1024"
  obtains j where "pow2_below x = 2 ^ j" and "2 ^ j \<le> x" and "x < 2 * 2 ^ j"
proof -
  from pow2_up_power [of 1024 x 1] obtain j where j: "pow2_up 1024 x 1 = 2 ^ j" by auto
  have b: "pow2_below x = pow2_up 1024 x 1" using assms(1) by (simp add: pow2_below_def)
  have "pow2_up 1024 x 1 \<le> x" using assms(1) by (rule pow2_up_le)
  moreover have "x < 2 * pow2_up 1024 x 1"
    using assms by (intro pow2_up_less) simp_all
  ultimately show thesis using that [of j] j b by simp
qed

subsubsection \<open>Rounding to an integer\<close>

lemma rhe_floor: "\<lfloor>m\<rfloor> \<le> round_half_even m \<and> round_half_even m \<le> \<lfloor>m\<rfloor> + 1"
  by (simp add: round_half_even_def Let_def)

lemma rhe_ge: "of_int M \<le> m \<Longrightarrow> M \<le> round_half_even m"
proof -
  assume "of_int M \<le> m"
  then have "M \<le> \<lfloor>m\<rfloor>" by (simp add: le_floor_iff)
  with rhe_floor [of m] show ?thesis by linarith
qed

lemma rhe_le: "m \<le> of_int N \<Longrightarrow> round_half_even m \<le> N"
proof -
  assume a: "m \<le> of_int N"
  show ?thesis
  proof (cases "m = of_int N")
    case True
    then show ?thesis by (simp add: round_half_even_def Let_def)
  next
    case False
    with a have "m < of_int N" by simp
    then have "\<lfloor>m\<rfloor> < N" by (simp add: floor_less_iff)
    with rhe_floor [of m] show ?thesis by linarith
  qed
qed

lemma rhe_less: "m < of_int N - 1 / 2 \<Longrightarrow> round_half_even m < N"
proof -
  assume a: "m < of_int N - 1 / 2"
  then have "m < of_int N" by linarith
  then have fl: "\<lfloor>m\<rfloor> < N" by (simp add: floor_less_iff)
  show ?thesis
  proof (cases "\<lfloor>m\<rfloor> = N - 1")
    case True
    then have "m - of_int \<lfloor>m\<rfloor> < 1 / 2" using a by simp
    then have "round_half_even m = \<lfloor>m\<rfloor>" by (simp add: round_half_even_def Let_def)
    with fl show ?thesis by simp
  next
    case False
    with fl have "\<lfloor>m\<rfloor> + 1 < N" by linarith
    with rhe_floor [of m] show ?thesis by linarith
  qed
qed

lemma rhe_near:
  "of_int (round_half_even m) \<le> m + 1 / 2 \<and> m - 1 / 2 \<le> of_int (round_half_even m)"
proof -
  have f: "of_int \<lfloor>m\<rfloor> \<le> m" "m < of_int \<lfloor>m\<rfloor> + 1" by linarith+
  consider "m - of_int \<lfloor>m\<rfloor> < 1 / 2" | "1 / 2 < m - of_int \<lfloor>m\<rfloor>" | "m - of_int \<lfloor>m\<rfloor> = 1 / 2"
    by linarith
  then show ?thesis
  proof cases
    case 1
    then have "round_half_even m = \<lfloor>m\<rfloor>" by (simp add: round_half_even_def Let_def)
    then have "of_int (round_half_even m) = (of_int \<lfloor>m\<rfloor> :: rat)" by simp
    with f 1 show ?thesis by linarith
  next
    case 2
    then have "round_half_even m = \<lfloor>m\<rfloor> + 1" by (simp add: round_half_even_def Let_def)
    then have "of_int (round_half_even m) = (of_int \<lfloor>m\<rfloor> + 1 :: rat)" by simp
    with f 2 show ?thesis by linarith
  next
    case 3
    then have "round_half_even m = \<lfloor>m\<rfloor> \<or> round_half_even m = \<lfloor>m\<rfloor> + 1"
      by (simp add: round_half_even_def Let_def)
    then have "of_int (round_half_even m) = (of_int \<lfloor>m\<rfloor> :: rat) \<or>
        of_int (round_half_even m) = (of_int \<lfloor>m\<rfloor> + 1 :: rat)" by auto
    with f 3 show ?thesis by linarith
  qed
qed

subsubsection \<open>Rounding to a double\<close>

lemma pow2_below_pos: "0 < x \<Longrightarrow> 0 < pow2_below x"
proof -
  assume "0 < x"
  show ?thesis
  proof (cases "1 \<le> x")
    case True
    from pow2_up_power [of 1024 x 1] obtain j where "pow2_up 1024 x 1 = 2 ^ j" by auto
    with True show ?thesis by (simp add: pow2_below_def)
  next
    case False
    then show ?thesis by (simp add: pow2_below_def pow2_down_pos)
  qed
qed

lemma to_double_FinD:
  assumes "to_double x = Fin a" and "x \<noteq> 0"
  shows "a = of_int (round_half_even (x / (pow2_below \<bar>x\<bar> / 2 ^ 52))) * (pow2_below \<bar>x\<bar> / 2 ^ 52)"
  using assms by (simp add: to_double_def Let_def split: if_splits)

lemma to_double_FinI:
  assumes "x \<noteq> 0"
    and "\<bar>of_int (round_half_even (x / (pow2_below \<bar>x\<bar> / 2 ^ 52))) * (pow2_below \<bar>x\<bar> / 2 ^ 52)\<bar>
      < 2 ^ 1024"
  shows "to_double x
    = Fin (of_int (round_half_even (x / (pow2_below \<bar>x\<bar> / 2 ^ 52))) * (pow2_below \<bar>x\<bar> / 2 ^ 52))"
  using assms by (simp add: to_double_def Let_def)

lemma js_sub_FinD: "js_sub u v = Fin a \<Longrightarrow> \<exists>x. to_double x = Fin a"
  by (cases u; cases v) auto

lemma pow2_less_53: "(2::rat) ^ j \<le> a \<Longrightarrow> a < 2 ^ 53 \<Longrightarrow> j \<le> 52"
proof -
  assume "(2::rat) ^ j \<le> a" "a < 2 ^ 53"
  then have "(2::rat) ^ j < 2 ^ 53" by linarith
  then have "j < 53" by (rule power_less_imp_less_exp [rotated]) simp
  then show ?thesis by simp
qed

lemma pow2_split: "j \<le> 52 \<Longrightarrow> (2::rat) ^ 52 = 2 ^ j * 2 ^ (52 - j)"
  by (simp flip: power_add)


lemma pow2_below_quotient:
  assumes "pow2_below y = 2 ^ j" and "j \<le> 52"
  shows "pow2_below y / 2 ^ 52 = 1 / 2 ^ (52 - j)"
proof -
  have h: "(2::rat) ^ 52 = 2 ^ j * 2 ^ (52 - j)" by (rule pow2_split [OF assms(2)])
  show ?thesis unfolding assms(1) h by simp
qed

lemma floor_quotient_exact:
  fixes a :: rat and c A :: int
  assumes grid: "a * 2 ^ 52 = of_int A * pow2_below a"
    and c: "0 < c" "of_int c \<le> a" and a53: "a < 2 ^ 53"
  shows "\<exists>r. to_double (a / of_int c) = Fin r \<and> \<lfloor>r\<rfloor> = \<lfloor>a / of_int c\<rfloor>"
proof -
  define x where "x = a / of_int c"
  define k where "k = \<lfloor>x\<rfloor>"
  have cpos: "(0::rat) < of_int c" and c1: "(1::rat) \<le> of_int c" using c(1) by simp_all
  have a1: "1 \<le> a" using c1 c(2) by linarith
  have ax: "a = x * of_int c" using cpos by (simp add: x_def)
  have x1: "1 \<le> x" using c(2) cpos by (simp add: x_def le_divide_eq)
  have xa: "x \<le> a"
  proof -
    have "x * 1 \<le> x * of_int c" using x1 c1 by (intro mult_left_mono) simp_all
    then show ?thesis using ax by simp
  qed
  have big: "(2::rat) ^ 53 < 2 ^ 1024" by (rule power_strict_increasing) simp_all
  have a1024: "a < 2 ^ 1024" and x1024: "x < 2 ^ 1024" and x53: "x < 2 ^ 53"
    using a53 xa big by linarith+
  obtain ja where ja: "pow2_below a = 2 ^ ja" "2 ^ ja \<le> a" "a < 2 * 2 ^ ja"
    using binade [OF a1 a1024] by blast
  obtain j where j: "pow2_below x = 2 ^ j" "2 ^ j \<le> x" "x < 2 * 2 ^ j"
    using binade [OF x1 x1024] by blast
  have ja52: "ja \<le> 52" by (rule pow2_less_53 [OF ja(2) a53])
  have j52: "j \<le> 52" by (rule pow2_less_53 [OF j(2) x53])
  define d where "d = 52 - j"
  define da where "da = 52 - ja"
  have pd: "(0::rat) < 2 ^ d" and pda: "(0::rat) < 2 ^ da" and pj: "(0::rat) < 2 ^ j"
    and pja: "(0::rat) < 2 ^ ja" by simp_all
  have s52: "(2::rat) ^ 52 = 2 ^ j * 2 ^ d" unfolding d_def by (rule pow2_split [OF j52])
  have sa52: "(2::rat) ^ 52 = 2 ^ ja * 2 ^ da" unfolding da_def by (rule pow2_split [OF ja52])
  define q where "q = pow2_below \<bar>x\<bar> / 2 ^ 52"
  have absx: "\<bar>x\<bar> = x" using x1 by simp
  have q: "q = 1 / 2 ^ d"
    unfolding q_def absx d_def by (rule pow2_below_quotient [OF j(1) j52])
  define m where "m = x / q"
  have m: "m = x * 2 ^ d" by (simp add: m_def q)
  define R where "R = round_half_even m"
  define r where "r = of_int R * q"
  have r: "r * 2 ^ d = of_int R" by (simp add: r_def q)
  have kx: "of_int k \<le> x" "x < of_int k + 1" unfolding k_def by linarith+
  have k1: "1 \<le> k" using x1 by (simp add: k_def le_floor_iff)
  have "of_int (k * 2 ^ d) \<le> m"
    using kx(1) pd by (simp add: m)
  then have Rlow: "k * 2 ^ d \<le> R" unfolding R_def by (rule rhe_ge)
  have rlow: "of_int k \<le> r"
  proof -
    have "(of_int (k * 2 ^ d) :: rat) \<le> of_int R" using Rlow by (simp only: of_int_le_iff)
    then have "of_int k * 2 ^ d \<le> r * 2 ^ d" unfolding r by simp
    then show ?thesis using pd by simp
  qed
  have A: "a * 2 ^ da = of_int A"
  proof -
    have "a * 2 ^ da * 2 ^ ja = of_int A * 2 ^ ja"
      using grid unfolding ja(1) sa52 by (simp add: mult.assoc mult.commute)
    then show ?thesis using pja by simp
  qed
  define D where "D = of_int c * (of_int k + 1) - a"
  have Dpos: "0 < D"
  proof -
    have "x * of_int c < (of_int k + 1) * of_int c"
      using kx(2) cpos by (intro mult_strict_right_mono)
    then show ?thesis by (simp add: D_def ax mult.commute)
  qed
  have Dint: "D * 2 ^ da = of_int (c * (k + 1) * 2 ^ da - A)"
  proof -
    have "D * 2 ^ da = of_int c * (of_int k + 1) * 2 ^ da - a * 2 ^ da"
      unfolding D_def by (rule left_diff_distrib)
    also have "\<dots> = of_int c * (of_int k + 1) * 2 ^ da - of_int A" unfolding A ..
    also have "\<dots> = of_int (c * (k + 1) * 2 ^ da - A)" by simp
    finally show ?thesis .
  qed
  have "0 < D * 2 ^ da" using Dpos pda by simp
  then have "(0::int) < c * (k + 1) * 2 ^ da - A"
    unfolding Dint by (simp only: of_int_0_less_iff)
  then have "(1::int) \<le> c * (k + 1) * 2 ^ da - A" by simp
  then have "(1::rat) \<le> of_int (c * (k + 1) * 2 ^ da - A)" by (simp only: of_int_1_le_iff)
  then have D1: "1 \<le> D * 2 ^ da" unfolding Dint .
  have cj: "of_int c * 2 ^ j \<le> a"
  proof -
    have "2 ^ j * of_int c \<le> x * of_int c" using j(2) cpos by (intro mult_right_mono) simp_all
    then show ?thesis by (simp add: ax mult.commute)
  qed
  have cq: "(of_int c :: rat) * 2 ^ da < 2 * 2 ^ d"
  proof -
    have "(of_int c :: rat) * 2 ^ j < 2 * 2 ^ ja" using cj ja(3) by linarith
    then have "((of_int c :: rat) * 2 ^ j) * (2 ^ d * 2 ^ da) < (2 * 2 ^ ja) * (2 ^ d * 2 ^ da)"
      using pd pda by (intro mult_strict_right_mono) simp_all
    then have "((of_int c :: rat) * 2 ^ da) * (2 ^ j * 2 ^ d) < (2 * 2 ^ d) * (2 ^ ja * 2 ^ da)"
      by (simp add: mult.assoc mult.left_commute mult.commute)
    then have "((of_int c :: rat) * 2 ^ da) * 2 ^ 52 < (2 * 2 ^ d) * (2::rat) ^ 52"
      unfolding s52 [symmetric] sa52 [symmetric] .
    then show ?thesis by simp
  qed
  have half: "m < of_int ((k + 1) * 2 ^ d) - 1 / 2"
  proof -
    have "of_int c * ((of_int k + 1) * 2 ^ d - m) = D * 2 ^ d"
      unfolding m D_def ax by (simp add: right_diff_distrib left_diff_distrib mult.assoc mult.left_commute)
    moreover have "(of_int c :: rat) / 2 < D * 2 ^ d"
    proof -
      have "2 * 2 ^ d * 1 \<le> 2 * 2 ^ d * (D * 2 ^ da)"
        using D1 pd by (intro mult_left_mono) simp_all
      then have "(of_int c :: rat) * 2 ^ da < 2 * 2 ^ d * (D * 2 ^ da)"
        using cq by linarith
      moreover have "((of_int c :: rat) / 2) * 2 ^ da = (of_int c * 2 ^ da) / 2" by simp
      moreover have "(D * 2 ^ d) * 2 ^ da = (2 * 2 ^ d * (D * 2 ^ da)) / 2" by simp
      ultimately have "((of_int c :: rat) / 2) * 2 ^ da < (D * 2 ^ d) * 2 ^ da" by linarith
      then show ?thesis using pda by (simp only: mult_less_cancel_right_pos)
    qed
    ultimately have "(of_int c :: rat) * (1 / 2) < of_int c * ((of_int k + 1) * 2 ^ d - m)" by simp
    then have "1 / 2 < (of_int k + 1) * 2 ^ d - m" using cpos by simp
    then show ?thesis by simp
  qed
  then have Rup: "R < (k + 1) * 2 ^ d" unfolding R_def by (rule rhe_less)
  have rup: "r < of_int k + 1"
  proof -
    have "of_int R < (of_int ((k + 1) * 2 ^ d) :: rat)" using Rup by (simp only: of_int_less_iff)
    then have "r * 2 ^ d < (of_int k + 1) * 2 ^ d" unfolding r by simp
    then show ?thesis using pd by simp
  qed
  have fl: "\<lfloor>r\<rfloor> = k" using rlow rup by (simp add: floor_unique)
  have small: "\<bar>r\<bar> < 2 ^ 1024"
  proof -
    have "(1::rat) \<le> of_int k" using k1 by simp
    then have "0 \<le> r" using rlow by linarith
    moreover have "r < 2 ^ 53 + 1" using rup kx(1) x53 by linarith
    moreover have "(2::rat) ^ 53 + 1 \<le> 2 ^ 1024" by simp
    ultimately show ?thesis by linarith
  qed
  have "to_double x = Fin r"
    using to_double_FinI [of x] x1 small unfolding r_def R_def m_def q_def by simp
  with fl show ?thesis unfolding x_def k_def by blast
qed


lemma binade_unique:
  fixes a :: rat
  assumes "2 ^ i \<le> a" "a < 2 * 2 ^ i" "2 ^ j \<le> a" "a < 2 * 2 ^ j"
  shows "i = j"
proof -
  have "(2::rat) ^ i < 2 ^ Suc j" using assms(1,4) by simp
  then have "i < Suc j" by (rule power_less_imp_less_exp [rotated]) simp
  moreover have "(2::rat) ^ j < 2 ^ Suc i" using assms(3,2) by simp
  then have "j < Suc i" by (rule power_less_imp_less_exp [rotated]) simp
  ultimately show ?thesis by simp
qed

lemma to_double_grid:
  assumes td: "to_double x = Fin a" and a2: "2 \<le> a" and a53: "a < 2 ^ 53"
  shows "\<exists>A. a * 2 ^ 52 = of_int A * pow2_below a"
proof -
  have x0: "x \<noteq> 0" using td a2 by (auto simp add: to_double_def)
  define T where "T = (2::rat) ^ 52"
  define P where "P = pow2_below \<bar>x\<bar>"
  define q where "q = P / T"
  define m where "m = x / q"
  define R where "R = round_half_even m"
  have T1: "1 \<le> T" and Tpos: "0 < T" by (simp_all add: T_def)
  have Ppos: "0 < P" unfolding P_def using x0 by (intro pow2_below_pos) simp
  have qpos: "0 < q" unfolding q_def using Ppos Tpos by (rule divide_pos_pos)
  have qT: "q * T = P" using Tpos by (simp add: q_def)
  have a: "a = of_int R * q"
    unfolding R_def m_def q_def P_def T_def by (rule to_double_FinD [OF td x0])
  have mq: "m * q = x" using qpos by (simp add: m_def)
  have near: "of_int R \<le> m + 1 / 2" "m - 1 / 2 \<le> of_int R"
    unfolding R_def using rhe_near [of m] by simp_all
  have up: "a \<le> x + q / 2"
  proof -
    have "of_int R * q \<le> (m + 1 / 2) * q" using near(1) qpos by (intro mult_right_mono) simp_all
    then show ?thesis unfolding a using mq by (simp add: distrib_right)
  qed
  have low: "x - q / 2 \<le> a"
  proof -
    have "(m - 1 / 2) * q \<le> of_int R * q" using near(2) qpos by (intro mult_right_mono) simp_all
    then show ?thesis unfolding a using mq by (simp add: left_diff_distrib)
  qed
  have qP: "q \<le> P"
  proof -
    have "q * 1 \<le> q * T" using qpos T1 by (intro mult_left_mono) simp_all
    then show ?thesis using qT by simp
  qed
  have xpos: "0 < x"
  proof (rule ccontr)
    assume "\<not> 0 < x"
    then have "x < 0" using x0 by simp
    then have "m < 0" unfolding m_def using qpos by (simp add: divide_neg_pos)
    then have "m \<le> of_int 0" by simp
    then have "R \<le> 0" unfolding R_def by (rule rhe_le)
    then have "(of_int R :: rat) \<le> 0" by simp
    then have "of_int R * q \<le> 0" using qpos by (simp add: mult_le_0_iff)
    then show False using a a2 by linarith
  qed
  then have absx: "\<bar>x\<bar> = x" by simp
  have x1: "1 \<le> x"
  proof (rule ccontr)
    assume n: "\<not> 1 \<le> x"
    then have "P = pow2_down 1021 x (1 / 2)" by (simp add: P_def absx pow2_below_def)
    moreover have "pow2_down 1021 x (1 / 2) \<le> 1 / 2" by (rule pow2_down_bound) simp
    ultimately have "q \<le> 1 / 2" using qP by linarith
    then show False using up n a2 by linarith
  qed
  have Px: "P \<le> x"
  proof -
    have "P = pow2_up 1024 x 1" using x1 by (simp add: P_def absx pow2_below_def)
    moreover have "pow2_up 1024 x 1 \<le> x" using x1 by (rule pow2_up_le)
    ultimately show ?thesis by simp
  qed
  have "x \<le> 2 * a" using low qP Px by linarith
  moreover have "2 * (2::rat) ^ 53 \<le> 2 ^ 1024" by simp
  ultimately have x1024: "x < 2 ^ 1024" using a53 by linarith
  obtain j where j: "pow2_below x = 2 ^ j" "2 ^ j \<le> x" "x < 2 * 2 ^ j"
    using binade [OF x1 x1024] by blast
  have Pj: "P = 2 ^ j" using j(1) by (simp add: P_def absx)
  have Tq: "T * q = 2 ^ j" using qT Pj by (simp add: mult.commute)
  have mlow: "T \<le> m"
  proof -
    have "T * q \<le> m * q" unfolding Tq mq by (rule j(2))
    then show ?thesis using qpos by (simp only: mult_le_cancel_right_pos)
  qed
  have mup: "m \<le> 2 * T"
  proof -
    have "m * q \<le> (2 * T) * q" unfolding mq using j(3) Tq by (simp add: mult.assoc)
    then show ?thesis using qpos by (simp only: mult_le_cancel_right_pos)
  qed
  have "of_int (2 ^ 52) \<le> m" using mlow by (simp add: T_def)
  then have Rlow: "2 ^ 52 \<le> R" unfolding R_def by (rule rhe_ge)
  have "m \<le> of_int (2 * 2 ^ 52)" using mup by (simp add: T_def)
  then have Rup: "R \<le> 2 * 2 ^ 52" unfolding R_def by (rule rhe_le)
  have RT: "T \<le> of_int R" "of_int R \<le> 2 * T"
  proof -
    have "(of_int (2 ^ 52) :: rat) \<le> of_int R" using Rlow by (simp only: of_int_le_iff)
    then show "T \<le> of_int R" by (simp add: T_def)
    have "(of_int R :: rat) \<le> of_int (2 * 2 ^ 52)" using Rup by (simp only: of_int_le_iff)
    then show "of_int R \<le> 2 * T" by (simp add: T_def)
  qed
  have alow: "2 ^ j \<le> a"
  proof -
    have "T * q \<le> of_int R * q" using RT(1) qpos by (intro mult_right_mono) simp_all
    then show ?thesis unfolding Tq a .
  qed
  have aup: "a \<le> 2 * 2 ^ j"
  proof -
    have "of_int R * q \<le> (2 * T) * q" using RT(2) qpos by (intro mult_right_mono) simp_all
    then show ?thesis unfolding a using Tq by (simp add: mult.assoc)
  qed
  have a1: "1 \<le> a" using a2 by simp
  have "(2::rat) ^ 53 < 2 ^ 1024" by simp
  then have a1024: "a < 2 ^ 1024" using a53 by linarith
  obtain ja where ja: "pow2_below a = 2 ^ ja" "2 ^ ja \<le> a" "a < 2 * 2 ^ ja"
    using binade [OF a1 a1024] by blast
  have aT: "a * T = of_int R * 2 ^ j"
  proof -
    have "a * T = of_int R * (T * q)" unfolding a by (simp add: mult.assoc mult.commute)
    then show ?thesis unfolding Tq .
  qed
  show ?thesis
  proof (cases "a < 2 * 2 ^ j")
    case True
    have "ja = j" using ja(2,3) alow True by (rule binade_unique)
    then have "a * 2 ^ 52 = of_int R * pow2_below a" using aT ja(1) by (simp add: T_def)
    then show ?thesis ..
  next
    case False
    then have e: "a = 2 ^ Suc j" using aup by simp
    have "ja = Suc j"
    proof (rule binade_unique [OF ja(2,3)])
      show "2 ^ Suc j \<le> a" using e by simp
      show "a < 2 * 2 ^ Suc j" unfolding e by simp
    qed
    then have "a * 2 ^ 52 = of_int (2 ^ 52) * pow2_below a" using e ja(1) by simp
    then show ?thesis ..
  qed
qed

lemma js_floor_div_exact:
  assumes "js_sub u v = Fin a" and "0 < c" and "2 \<le> a" and "of_int c \<le> a" and "a < 2 ^ 53"
  shows "js_floor (js_div (Fin a) (of_int c)) = Fin (of_int \<lfloor>a / of_int c\<rfloor>)"
proof -
  from js_sub_FinD [OF assms(1)] obtain x where "to_double x = Fin a" ..
  from to_double_grid [OF this assms(3,5)] obtain A where "a * 2 ^ 52 = of_int A * pow2_below a" ..
  from floor_quotient_exact [OF this assms(2,4,5)]
  obtain r where "to_double (a / of_int c) = Fin r" "\<lfloor>r\<rfloor> = \<lfloor>a / of_int c\<rfloor>" by blast
  then show ?thesis by simp
qed


subsection \<open>Age labels\<close>

lemma cards_renderPhotoGrid:
  "cards (renderPhotoGrid s) = map (renderCard s) (enumerate 0 (photos s))"
  by (cases "photos s") (simp_all add: cards_def renderPhotoGrid_def)

text \<open>
  C9. After the grid is rendered there is one card for each photo. The label and the mark
  of a card are functions of the age of its photo alone, the number that
  \<^verbatim>\<open>Date.now() / 1000 - photo.created_at\<close> computes. When that number is finite: below 60
  the label is "Just now"; from 60 and below 3600 it is the floor of the age divided by 60,
  followed by "m ago"; from 3600 and below 86400 the floor of the age divided by 3600,
  followed by "h ago"; from 86400 on the floor of the age divided by 86400, followed by
  "d ago"; and the card is marked new exactly when the age is below 3600. Subtraction and
  division are those of the doubles. The division does not disturb the number shown: it is
  the floor of the exact quotient of the age by 60, by 3600 and, for an age below \<open>2\<^sup>5\<^sup>3\<close>
  seconds, by 86400.
\<close>

theorem age_label_and_badge:
  assumes "i < length (photos s)"
  defines "age \<equiv>
    js_sub (js_div (to_double (of_int (nowMs s))) 1000) (created_at (photos s ! i))"
  defines "c \<equiv> cards (renderPhotoGrid s) ! i"
  shows "length (cards (renderPhotoGrid s)) = length (photos s) \<and>
    timeStr c = formatTime age \<and> isNew c = js_lt age 3600 \<and>
    (\<forall>a. age = Fin a \<longrightarrow>
      (a < 60 \<longrightarrow> timeStr c = Text ''Just now'') \<and>
      (60 \<le> a \<and> a < 3600 \<longrightarrow> timeStr c = NumberThen (js_floor (js_div age 60)) ''m ago'') \<and>
      (3600 \<le> a \<and> a < 86400 \<longrightarrow>
        timeStr c = NumberThen (js_floor (js_div age 3600)) ''h ago'') \<and>
      (86400 \<le> a \<longrightarrow> timeStr c = NumberThen (js_floor (js_div age 86400)) ''d ago'') \<and>
      isNew c = (a < 3600)) \<and>
    (\<forall>a. age = Fin a \<longrightarrow>
      (60 \<le> a \<and> a < 3600 \<longrightarrow>
        timeStr c = NumberThen (Fin (of_int \<lfloor>a / 60\<rfloor>)) ''m ago'') \<and>
      (3600 \<le> a \<and> a < 86400 \<longrightarrow>
        timeStr c = NumberThen (Fin (of_int \<lfloor>a / 3600\<rfloor>)) ''h ago'') \<and>
      (86400 \<le> a \<and> a < 2 ^ 53 \<longrightarrow>
        timeStr c = NumberThen (Fin (of_int \<lfloor>a / 86400\<rfloor>)) ''d ago''))"
proof -
  have c: "c = renderCard s (i, photos s ! i)"
    using assms(1) by (simp add: c_def cards_renderPhotoGrid nth_enumerate_eq)
  have t: "timeStr c = formatTime age" and n: "isNew c = js_lt age 3600"
    by (simp_all add: c renderCard_def timeAgo_def age_def)
  have shown: "length (cards (renderPhotoGrid s)) = length (photos s) \<and>
    timeStr c = formatTime age \<and> isNew c = js_lt age 3600 \<and>
    (\<forall>a. age = Fin a \<longrightarrow>
      (a < 60 \<longrightarrow> timeStr c = Text ''Just now'') \<and>
      (60 \<le> a \<and> a < 3600 \<longrightarrow> timeStr c = NumberThen (js_floor (js_div age 60)) ''m ago'') \<and>
      (3600 \<le> a \<and> a < 86400 \<longrightarrow>
        timeStr c = NumberThen (js_floor (js_div age 3600)) ''h ago'') \<and>
      (86400 \<le> a \<longrightarrow> timeStr c = NumberThen (js_floor (js_div age 86400)) ''d ago'') \<and>
      isNew c = (a < 3600))"
    unfolding t n by (auto simp add: cards_renderPhotoGrid formatTime_def)
  have exact: "js_floor (js_div age (of_int k)) = Fin (of_int \<lfloor>a / of_int k\<rfloor>)"
    if "age = Fin a" "0 < k" "2 \<le> a" "of_int k \<le> a" "a < 2 ^ 53" for a k
    unfolding that(1) by (rule js_floor_div_exact [OF that(1) [unfolded age_def] that(2-5)])
  have "\<forall>a. age = Fin a \<longrightarrow>
      (60 \<le> a \<and> a < 3600 \<longrightarrow>
        timeStr c = NumberThen (Fin (of_int \<lfloor>a / 60\<rfloor>)) ''m ago'') \<and>
      (3600 \<le> a \<and> a < 86400 \<longrightarrow>
        timeStr c = NumberThen (Fin (of_int \<lfloor>a / 3600\<rfloor>)) ''h ago'') \<and>
      (86400 \<le> a \<and> a < 2 ^ 53 \<longrightarrow>
        timeStr c = NumberThen (Fin (of_int \<lfloor>a / 86400\<rfloor>)) ''d ago'')"
  proof (intro allI impI)
    fix a
    assume a: "age = Fin a"
    have m: "js_floor (js_div age 60) = Fin (of_int \<lfloor>a / 60\<rfloor>)" if "60 \<le> a" "a < 3600"
      using exact [OF a, of 60] that by simp
    have h: "js_floor (js_div age 3600) = Fin (of_int \<lfloor>a / 3600\<rfloor>)"
      if "3600 \<le> a" "a < 86400"
      using exact [OF a, of 3600] that by simp
    have d: "js_floor (js_div age 86400) = Fin (of_int \<lfloor>a / 86400\<rfloor>)"
      if "86400 \<le> a" "a < 2 ^ 53"
      using exact [OF a, of 86400] that by simp
    from shown a m h d
    show "(60 \<le> a \<and> a < 3600 \<longrightarrow>
        timeStr c = NumberThen (Fin (of_int \<lfloor>a / 60\<rfloor>)) ''m ago'') \<and>
      (3600 \<le> a \<and> a < 86400 \<longrightarrow>
        timeStr c = NumberThen (Fin (of_int \<lfloor>a / 3600\<rfloor>)) ''h ago'') \<and>
      (86400 \<le> a \<and> a < 2 ^ 53 \<longrightarrow>
        timeStr c = NumberThen (Fin (of_int \<lfloor>a / 86400\<rfloor>)) ''d ago'')"
      by metis
  qed
  with shown show ?thesis by blast
qed

lemma pow2_up_numeral:
  "pow2_up (numeral k) x p = (if x < 2 * p then p else pow2_up (pred_numeral k) x (2 * p))"
  by (simp add: numeral_eq_Suc)

lemma pow2_down_numeral:
  "pow2_down (numeral k) x p = (if p \<le> x then p else pow2_down (pred_numeral k) x (p / 2))"
  by (simp add: numeral_eq_Suc)

lemma floor_numeral_divide:
  "\<lfloor>(numeral a :: rat) / numeral b\<rfloor> = numeral a div numeral b"
  using floor_divide_of_int_eq [of "numeral a" "numeral b", where ?'a = rat] by simp

lemmas double_eval = floor_numeral_divide to_double_def pow2_below_def pow2_up_numeral
  pow2_down_numeral round_half_even_def Let_def

text \<open>
  The clock of the example in seconds, the four ages, and the quotients that are shown.
  The first two ages are 60 and 3600 although the exact differences are smaller.
\<close>

lemma clock_seconds:
  "js_div (to_double 1762128000002) 1000 = Fin (7390900518920389 / 4194304)"
  by (simp add: double_eval)

lemma aged_ages:
  "js_sub (Fin (7390900518920389 / 4194304)) (Fin (7390900267262149 / 4194304)) = Fin 60"
  "js_sub (Fin (7390900518920389 / 4194304)) (Fin (7390885419425989 / 4194304)) = Fin 3600"
  "js_sub (Fin (7390900518920389 / 4194304)) (Fin 1762127970) = Fin (125837509 / 4194304)"
  "js_sub (Fin (7390900518920389 / 4194304)) (Fin 1761928000) = Fin (838860808389 / 4194304)"
  by (simp_all add: double_eval)

lemma aged_quotients:
  "js_floor (js_div (Fin 60) 60) = Fin 1"
  "js_floor (js_div (Fin 3600) 3600) = Fin 1"
  "js_floor (js_div (Fin (838860808389 / 4194304)) 86400) = Fin 2"
  by (simp_all add: double_eval)

lemma aged_gallery_fields:
  "photos aged_gallery = aged_photos" "nowMs aged_gallery = 1762128000002"
  by (simp_all add: aged_gallery_def loadPhotos_resume_def showNewPhotoIndicator_def
      renderPhotoGrid_def startup_def initial_def updateScene_def sceneOrder_at_def
      sceneOrder_def sceneAssets_def sceneAssets_list_def startPolling_def truthy_def Let_def
      prim_defs)

theorem age_label_and_badge_witness:
  "map timeStr (cards (renderPhotoGrid aged_gallery))
     = [NumberThen (Fin 1) ''m ago'', NumberThen (Fin 1) ''h ago'', Text ''Just now'',
        NumberThen (Fin 2) ''d ago''] \<and>
   map isNew (cards (renderPhotoGrid aged_gallery)) = [True, False, True, False]"
  using age_label_and_badge [of 0 aged_gallery] age_label_and_badge [of 1 aged_gallery]
    age_label_and_badge [of 2 aged_gallery] age_label_and_badge [of 3 aged_gallery]
  by (simp add: aged_gallery_fields aged_photos_def cards_renderPhotoGrid renderCard_def
      timeAgo_def formatTime_def enumerate_eq_zip upt_rec clock_seconds aged_ages
      aged_quotients del: js_div.simps js_sub.simps)

subsection \<open>The focused photo\<close>

text \<open>
  C8 does not hold of the code. \<open>loadPhotos\<close> replaces the photo list and leaves
  \<open>focusedPhotoIndex\<close> alone: when three photos are held, the focus is on the last of them and
  a refresh brings one photo, the focus stays at 2 while the only valid index is 0.
\<close>

theorem refresh_leaves_focus_out_of_range:
  "currentView (run shrinking_gallery (startup {} Placeholder 0)) = Photos \<and>
   length (photos (run shrinking_gallery (startup {} Placeholder 0))) = 1 \<and>
   focusedPhotoIndex (run shrinking_gallery (startup {} Placeholder 0)) = 2"
  by (simp add: shrinking_gallery_def eval_defs)

text \<open>
  What the two key handlers do by themselves is as intended: with the focus in range they
  keep it in range, and at either end, or on an empty gallery, the outward move changes
  nothing.
\<close>

lemma focus_moves_stay_in_range:
  assumes "0 \<le> focusedPhotoIndex s"
    and "focusedPhotoIndex s \<le> max 0 (int (length (photos s)) - 1)"
  shows "0 \<le> focusedPhotoIndex (moveFocusLeft s) \<and>
    focusedPhotoIndex (moveFocusLeft s) \<le> max 0 (int (length (photos s)) - 1) \<and>
    0 \<le> focusedPhotoIndex (moveFocusRight s) \<and>
    focusedPhotoIndex (moveFocusRight s) \<le> max 0 (int (length (photos s)) - 1)"
  using assms by (auto simp add: moveFocusLeft_def moveFocusRight_def)

lemma focus_moves_at_the_ends:
  "focusedPhotoIndex s = 0 \<Longrightarrow> moveFocusLeft s = s"
  "int (length (photos s)) - 1 \<le> focusedPhotoIndex s \<Longrightarrow> moveFocusRight s = s"
  "photos s = [] \<Longrightarrow> focusedPhotoIndex s = 0 \<Longrightarrow> moveFocusLeft s = s \<and> moveFocusRight s = s"
  by (simp_all add: moveFocusLeft_def moveFocusRight_def)

end
